theory Spec2Isabelle
  imports Main "HOL-Library.Sublist"
begin

section \<open>Path and string primitives used by the scripts\<close>

text \<open>
  Both scripts are written for Windows (\<^verbatim>\<open>find_pendrive\<close> returns a drive
  root: a drive letter, a colon and a backslash), so \<^verbatim>\<open>os.path\<close> is \<^verbatim>\<open>ntpath\<close>. The library
  functions are modelled on drive-letter paths; UNC shares are not modelled.
  Strings are byte strings, and \<^verbatim>\<open>str.lower\<close> is modelled on ASCII letters.
\<close>

definition sep :: char where
  "sep = CHR 0x5C"

definition seps :: "char list" where
  "seps = [CHR 0x5C, CHR ''/'']"

definition ascii_uppercase :: string where
  "ascii_uppercase = ''ABCDEFGHIJKLMNOPQRSTUVWXYZ''"

definition lower_char :: "char \<Rightarrow> char" where
  "lower_char c = (if c \<in> set ascii_uppercase then char_of (of_char c + (32::nat)) else c)"

definition lower :: "string \<Rightarrow> string" where
  "lower s = map lower_char s"

text \<open>\<^verbatim>\<open>str.endswith\<close>: the last \<open>length suf\<close> characters are \<open>suf\<close>.\<close>

definition endswith :: "string \<Rightarrow> string \<Rightarrow> bool" where
  "endswith s suf = (length suf \<le> length s \<and> drop (length s - length suf) s = suf)"

text \<open>\<^verbatim>\<open>ntpath.splitdrive\<close> on drive-letter paths: \<^verbatim>\<open>p[1:2] == ':'\<close>.\<close>

definition splitdrive :: "string \<Rightarrow> string \<times> string" where
  "splitdrive p = (if take 1 (drop 1 p) = '':'' then (take 2 p, drop 2 p) else ([], p))"

text \<open>
  \<^verbatim>\<open>ntpath.basename\<close>: the part of the drive-less path after its last
  separator (either slash).
\<close>

definition basename :: "string \<Rightarrow> string" where
  "basename p = rev (takeWhile (\<lambda>c. c \<notin> set seps) (rev (snd (splitdrive p))))"

text \<open>
  \<^verbatim>\<open>ntpath.join\<close> of two components. An absolute second component replaces the
  path, a second component on another drive replaces everything, and a relative one
  is appended after a separator unless the path so far is empty or already ends
  with one.
\<close>

definition join :: "string \<Rightarrow> string \<Rightarrow> string" where
  "join path p =
     (let (result_drive, result_path) = splitdrive path;
          (p_drive, p_path) = splitdrive p
      in if p_path \<noteq> [] \<and> hd p_path \<in> set seps then
           (if p_drive \<noteq> [] \<or> result_drive = [] then p_drive else result_drive) @ p_path
         else if p_drive \<noteq> [] \<and> p_drive \<noteq> result_drive
                 \<and> lower p_drive \<noteq> lower result_drive then
           p_drive @ p_path
         else
           (if p_drive \<noteq> [] \<and> p_drive \<noteq> result_drive then p_drive else result_drive)
           @ (if result_path \<noteq> [] \<and> last result_path \<notin> set seps
              then result_path @ [sep] else result_path)
           @ p_path)"

text \<open>
  \<^verbatim>\<open>os.path.splitext(p)[1]\<close>: the text from the last dot of the base name on,
  unless that base name has no dot or only leading dots before it.
\<close>

definition splitext_ext :: "string \<Rightarrow> string" where
  "splitext_ext p =
     (let tail = rev (takeWhile (\<lambda>c. c \<notin> set seps) (rev p));
          stem = dropWhile (\<lambda>c. c = CHR ''.'') tail
      in if CHR ''.'' \<in> set stem
         then CHR ''.'' # rev (takeWhile (\<lambda>c. c \<noteq> CHR ''.'') (rev stem))
         else [])"


section \<open>The exclusion predicate (main.py, \<^verbatim>\<open>should_ignore\<close>)\<close>

definition should_ignore :: "string \<Rightarrow> string set \<Rightarrow> string set \<Rightarrow> string set \<Rightarrow> bool" where
  "should_ignore path ignore_dirs ignore_exts ignore_files =
     (let name = basename path
      in if name \<in> ignore_dirs \<or> name \<in> ignore_files then True
         else if \<exists>ext \<in> ignore_exts. endswith name ext then True
         else False)"

section \<open>The file system the scripts read\<close>

text \<open>
  A directory tree as the scripts observe it. A file has a name, a byte size and a
  flag telling whether \<^verbatim>\<open>os.path.getsize\<close> succeeds on it (it raises on a path
  that is too long, on a broken link, on a file deleted meanwhile). A directory has
  a name, a flag telling whether it can be listed, and its entries in listing order.
\<close>

datatype node =
    File string nat bool
  | Dir string bool "node list"

fun is_dir :: "node \<Rightarrow> bool" where
  "is_dir (Dir n l es) = True"
| "is_dir (File n s ok) = False"

fun node_name :: "node \<Rightarrow> string" where
  "node_name (Dir n l es) = n"
| "node_name (File n s ok) = n"

text \<open>
  One triple yielded by \<^verbatim>\<open>os.walk\<close>: the directory's path, its subdirectories
  and its files. \<open>we_rel\<close> keeps the names of the directories descended from the
  top, from which \<^verbatim>\<open>os.path.relpath(root, top)\<close> is computed.
\<close>

record walk_entry =
  we_root :: string
  we_rel :: "string list"
  we_dirs :: "node list"
  we_files :: "node list"

text \<open>
  \<^verbatim>\<open>os.walk(top)\<close>, top-down, with the default \<^verbatim>\<open>onerror=None\<close>: a directory
  is yielded before its subdirectories, the caller's assignment to \<^verbatim>\<open>dirs[:]\<close>
  decides which of them are entered (\<open>keep\<close>, given the listed names and one of
  them), and a directory that cannot be listed is skipped without any signal.
\<close>

function os_walk :: "(string list \<Rightarrow> string \<Rightarrow> bool) \<Rightarrow> string \<Rightarrow> string list \<Rightarrow> node list \<Rightarrow> walk_entry list"
  and os_walk_dirs :: "(string list \<Rightarrow> string \<Rightarrow> bool) \<Rightarrow> string \<Rightarrow> string list \<Rightarrow> node list \<Rightarrow> walk_entry list"
where
  "os_walk keep root rel es =
     (let dirs = filter is_dir es;
          nondirs = filter (\<lambda>e. \<not> is_dir e) es
      in \<lparr>we_root = root, we_rel = rel, we_dirs = dirs, we_files = nondirs\<rparr>
         # os_walk_dirs keep root rel (filter (\<lambda>d. keep (map node_name dirs) (node_name d)) dirs))"
| "os_walk_dirs keep root rel [] = []"
| "os_walk_dirs keep root rel (File n s ok # ds) = os_walk_dirs keep root rel ds"
| "os_walk_dirs keep root rel (Dir n l sub # ds) =
     (if l then os_walk keep (join root n) (rel @ [n]) sub else [])
     @ os_walk_dirs keep root rel ds"
  by pat_completeness auto
termination
proof (relation "measure (\<lambda>x. case x of
          Inl (keep, root, rel, es) \<Rightarrow> 2 * size_list size es + 1
        | Inr (keep, root, rel, ds) \<Rightarrow> 2 * size_list size ds)")
  have le: "size_list size (filter P xs) \<le> size_list size xs" for P and xs :: "node list"
    by (induction xs) auto
  show "wf (measure (\<lambda>x. case x of
          Inl (keep, root, rel, es) \<Rightarrow> 2 * size_list size es + 1
        | Inr (keep, root, rel, ds) \<Rightarrow> 2 * size_list size ds))"
    by simp
  fix keep :: "string list \<Rightarrow> string \<Rightarrow> bool" and root :: string and rel :: "string list"
    and es :: "node list" and x xa :: "node list"
  assume "x = filter is_dir es" "xa = filter (\<lambda>e. \<not> is_dir e) es"
  then show "(Inr (keep, root, rel, filter (\<lambda>d. keep (map node_name x) (node_name d)) x),
              Inl (keep, root, rel, es))
      \<in> measure (\<lambda>x. case x of
            Inl (keep, root, rel, es) \<Rightarrow> 2 * size_list size es + 1
          | Inr (keep, root, rel, ds) \<Rightarrow> 2 * size_list size ds)"
    using le [of "\<lambda>d. keep (map node_name (filter is_dir es)) (node_name d)" "filter is_dir es"]
      le [of is_dir es]
    by simp
qed simp_all

text \<open>
  \<^verbatim>\<open>os.path.relpath(root, top)\<close> for a directory that the walk reached from
  \<open>top\<close> through the directories \<open>rel\<close>: a dot for the top itself, else the names
  joined by the separator.
\<close>

fun relpath :: "string list \<Rightarrow> string" where
  "relpath [] = ''.''"
| "relpath [n] = n"
| "relpath (n # m # ns) = n @ [sep] @ relpath (m # ns)"

section \<open>main.py\<close>

datatype exn = RuntimeError string | OSError string

datatype level = INFO | ERROR

datatype fs_call = Makedirs string | Copy2 string string

text \<open>
  What the copy depends on outside the program: which drive roots are removable,
  what a top directory lists (\<open>None\<close> when it does not exist or cannot be listed),
  whether \<^verbatim>\<open>os.makedirs\<close> and \<^verbatim>\<open>shutil.copy2\<close> raise (with which message), and
  whether tqdm is installed. pywin32 is taken as installed, as the script requires.
\<close>

record env =
  drive_removable :: "string \<Rightarrow> bool"
  scandir :: "string \<Rightarrow> node list option"
  makedirs_error :: "string \<Rightarrow> string option"
  copy2_error :: "string \<Rightarrow> string \<Rightarrow> string option"
  has_tqdm :: bool

text \<open>
  What a run leaves behind: the records handed to \<^verbatim>\<open>logging\<close>, the mutating
  file-system calls issued, in order, and the progress bar (total, position) when
  there is one.
\<close>

record state =
  log :: "(level \<times> string) list"
  calls :: "fs_call list"
  pbar :: "(nat \<times> nat) option"

definition init_state :: state where
  "init_state = \<lparr>log = [], calls = [], pbar = None\<rparr>"

definition is_pendrive :: "env \<Rightarrow> char \<Rightarrow> bool" where
  "is_pendrive env drive_letter = drive_removable env ([drive_letter] @ '':'' @ [sep])"

fun find_pendrive_from :: "env \<Rightarrow> string \<Rightarrow> exn + string" where
  "find_pendrive_from env [] = Inl (RuntimeError ''No pendrive detected.'')"
| "find_pendrive_from env (letter # letters) =
     (if is_pendrive env letter then Inr ([letter] @ '':'' @ [sep])
      else find_pendrive_from env letters)"

definition find_pendrive :: "env \<Rightarrow> exn + string" where
  "find_pendrive env = find_pendrive_from env ascii_uppercase"

definition default_dirs :: "string set" where
  "default_dirs = {''node_modules'', ''venv'', ''.git'', ''__pycache__'', ''.mypy_cache'',
     ''.pytest_cache'', ''.idea'', ''.next'', ''dist'', ''build'', ''out'', ''.cache''}"

definition default_exts :: "string set" where
  "default_exts = {''.exe'', ''.dll'', ''.pyc'', ''.pyo'', ''.log'', ''.tmp'', ''.cache''}"

definition default_files :: "string set" where
  "default_files = {''package-lock.json'', ''yarn.lock'', ''.DS_Store'', ''Thumbs.db''}"

record params =
  ignore_dirs :: "string set"
  ignore_exts :: "string set"
  ignore_files :: "string set"
  dry_run :: bool
  dest_folder :: string

text \<open>The assignment \<^verbatim>\<open>dirs[:] = [d for d in dirs if not should_ignore(d, ignore_dirs, set(), set())]\<close>.\<close>

definition keep_dir :: "string set \<Rightarrow> string list \<Rightarrow> string \<Rightarrow> bool" where
  "keep_dir dirs_excluded dirs d = (\<not> should_ignore d dirs_excluded {} {})"

text \<open>The first pass, which counts the files for the progress bar.\<close>

fun count_total_files :: "params \<Rightarrow> walk_entry list \<Rightarrow> nat" where
  "count_total_files ps [] = 0"
| "count_total_files ps (e # rest) =
     length (filter (\<lambda>file. \<not> should_ignore (node_name file) {} (ignore_exts ps) (ignore_files ps))
               (we_files e))
     + count_total_files ps rest"

text \<open>\<^verbatim>\<open>if pbar: pbar.update(1)\<close>.\<close>

definition pbar_update1 :: "state \<Rightarrow> state" where
  "pbar_update1 st = (case pbar st of None \<Rightarrow> st | Some (tot, n) \<Rightarrow> st\<lparr>pbar := Some (tot, n + 1)\<rparr>)"

definition would_copy_msg :: "string \<Rightarrow> string \<Rightarrow> string" where
  "would_copy_msg src_file dest_file = ''Would copy: '' @ src_file @ '' -> '' @ dest_file"

definition copied_msg :: "string \<Rightarrow> string \<Rightarrow> string" where
  "copied_msg src_file dest_file = ''Copied: '' @ src_file @ '' -> '' @ dest_file"

definition failed_msg :: "string \<Rightarrow> string \<Rightarrow> string \<Rightarrow> string" where
  "failed_msg src_file dest_file e = ''Failed to copy '' @ src_file @ '' to '' @ dest_file @ '': '' @ e"

text \<open>The body of \<^verbatim>\<open>for file in files\<close> of the copy pass, for one file name.\<close>

definition copy_one :: "env \<Rightarrow> params \<Rightarrow> string \<Rightarrow> string \<Rightarrow> string \<Rightarrow> state \<Rightarrow> state" where
  "copy_one env ps root dest_path file st =
     (if should_ignore file {} (ignore_exts ps) (ignore_files ps) then st
      else
        let src_file = join root file;
            dest_file = join dest_path file
        in pbar_update1
             (if dry_run ps then st\<lparr>log := log st @ [(INFO, would_copy_msg src_file dest_file)]\<rparr>
              else case copy2_error env src_file dest_file of
                     None \<Rightarrow> st\<lparr>log := log st @ [(INFO, copied_msg src_file dest_file)],
                                 calls := calls st @ [Copy2 src_file dest_file]\<rparr>
                   | Some e \<Rightarrow> st\<lparr>log := log st @ [(ERROR, failed_msg src_file dest_file e)],
                                   calls := calls st @ [Copy2 src_file dest_file]\<rparr>))"

fun copy_files :: "env \<Rightarrow> params \<Rightarrow> string \<Rightarrow> string \<Rightarrow> node list \<Rightarrow> state \<Rightarrow> state" where
  "copy_files env ps root dest_path [] st = st"
| "copy_files env ps root dest_path (file # files) st =
     copy_files env ps root dest_path files (copy_one env ps root dest_path (node_name file) st)"

text \<open>
  The copy pass over the triples of the walk. \<^verbatim>\<open>os.makedirs\<close> is outside any
  \<^verbatim>\<open>try\<close>: when it raises, the exception leaves the function.
\<close>

fun copy_walk :: "env \<Rightarrow> params \<Rightarrow> walk_entry list \<Rightarrow> state \<Rightarrow> exn option \<times> state" where
  "copy_walk env ps [] st = (None, st)"
| "copy_walk env ps (e # rest) st =
     (let rel_path = relpath (we_rel e);
          dest_path = join (dest_folder ps) rel_path
      in if dry_run ps then
           copy_walk env ps rest (copy_files env ps (we_root e) dest_path (we_files e) st)
         else
           let st1 = st\<lparr>calls := calls st @ [Makedirs dest_path]\<rparr>
           in case makedirs_error env dest_path of
                Some msg \<Rightarrow> (Some (OSError msg), st1)
              | None \<Rightarrow> copy_walk env ps rest (copy_files env ps (we_root e) dest_path (we_files e) st1))"

text \<open>\<^verbatim>\<open>os.walk(src_folder)\<close> with the pruning of the two loops of main.py.\<close>

definition walk_source :: "env \<Rightarrow> params \<Rightarrow> string \<Rightarrow> walk_entry list" where
  "walk_source env ps src_folder =
     (case scandir env src_folder of
        None \<Rightarrow> []
      | Some es \<Rightarrow> os_walk (keep_dir (ignore_dirs ps)) src_folder [] es)"

text \<open>
  The head of \<^verbatim>\<open>smart_copy_to_pendrive\<close>: an argument left at \<^verbatim>\<open>None\<close> takes its
  default set, and \<^verbatim>\<open>dest_folder = os.path.join(pendrive_root, os.path.basename(src_folder))\<close>.
\<close>

definition make_params ::
  "string \<Rightarrow> string \<Rightarrow> string set option \<Rightarrow> string set option \<Rightarrow> string set option \<Rightarrow> bool \<Rightarrow> params" where
  "make_params pendrive_root src_folder dirs_arg exts_arg files_arg dry =
     \<lparr>ignore_dirs = (case dirs_arg of None \<Rightarrow> default_dirs | Some s \<Rightarrow> s),
      ignore_exts = (case exts_arg of None \<Rightarrow> default_exts | Some s \<Rightarrow> s),
      ignore_files = (case files_arg of None \<Rightarrow> default_files | Some s \<Rightarrow> s),
      dry_run = dry,
      dest_folder = join pendrive_root (basename src_folder)\<rparr>"

definition smart_copy_to_pendrive ::
  "env \<Rightarrow> string \<Rightarrow> string set option \<Rightarrow> string set option \<Rightarrow> string set option \<Rightarrow> bool
     \<Rightarrow> exn option \<times> state" where
  "smart_copy_to_pendrive env src_folder dirs_arg exts_arg files_arg dry =
     (case find_pendrive env of
        Inl e \<Rightarrow> (Some e, init_state)
      | Inr pendrive_root \<Rightarrow>
          let ps = make_params pendrive_root src_folder dirs_arg exts_arg files_arg dry;
              total_files = count_total_files ps (walk_source env ps src_folder);
              st0 = init_state\<lparr>pbar := (if has_tqdm env \<and> \<not> dry then Some (total_files, 0) else None)\<rparr>
          in copy_walk env ps (walk_source env ps src_folder) st0)"

section \<open>simulate\_main.py\<close>

record ext_stat =
  stat_count :: nat
  stat_size :: nat

text \<open>
  The module-level accumulators, and the \<^verbatim>\<open>Would copy\<close> lines written to the
  report by the walk loop. The two dictionaries are \<^verbatim>\<open>defaultdict\<close>s: reading a
  missing key yields a zero entry.
\<close>

record sim_state =
  total_copy_size :: nat
  total_ignored_size :: nat
  copied_ext_stats :: "string \<rightharpoonup> ext_stat"
  ignored_ext_stats :: "string \<rightharpoonup> ext_stat"
  report :: "string list"

definition init_sim :: sim_state where
  "init_sim = \<lparr>total_copy_size = 0, total_ignored_size = 0,
     copied_ext_stats = Map.empty, ignored_ext_stats = Map.empty, report = []\<rparr>"

definition get_stat :: "(string \<rightharpoonup> ext_stat) \<Rightarrow> string \<Rightarrow> ext_stat" where
  "get_stat stats ext = (case stats ext of None \<Rightarrow> \<lparr>stat_count = 0, stat_size = 0\<rparr> | Some d \<Rightarrow> d)"

text \<open>\<^verbatim>\<open>stats[ext]['count'] += 1; stats[ext]['size'] += file_size\<close>.\<close>

definition add_stat :: "(string \<rightharpoonup> ext_stat) \<Rightarrow> string \<Rightarrow> nat \<Rightarrow> (string \<rightharpoonup> ext_stat)" where
  "add_stat stats ext file_size =
     stats(ext \<mapsto> \<lparr>stat_count = stat_count (get_stat stats ext) + 1,
                    stat_size = stat_size (get_stat stats ext) + file_size\<rparr>)"

text \<open>The body of the file loop of \<^verbatim>\<open>add_dir_ignored_stats\<close>.\<close>

fun add_ignored_file :: "node \<Rightarrow> sim_state \<Rightarrow> sim_state" where
  "add_ignored_file (File file file_size ok) st =
     (if \<not> ok then st
      else let ext = lower (splitext_ext file)
           in st\<lparr>total_ignored_size := total_ignored_size st + file_size,
                 ignored_ext_stats := add_stat (ignored_ext_stats st) ext file_size\<rparr>)"
| "add_ignored_file (Dir n l es) st = st"

fun add_ignored_files :: "node list \<Rightarrow> sim_state \<Rightarrow> sim_state" where
  "add_ignored_files [] st = st"
| "add_ignored_files (file # files) st = add_ignored_files files (add_ignored_file file st)"

fun add_ignored_entries :: "walk_entry list \<Rightarrow> sim_state \<Rightarrow> sim_state" where
  "add_ignored_entries [] st = st"
| "add_ignored_entries (e # rest) st = add_ignored_entries rest (add_ignored_files (we_files e) st)"

text \<open>
  \<^verbatim>\<open>add_dir_ignored_stats(dir_path)\<close>: a walk of the whole directory, nothing pruned.
  The directory is given with its path.
\<close>

definition keep_all :: "string list \<Rightarrow> string \<Rightarrow> bool" where
  "keep_all dirs d = True"

fun add_dir_ignored_stats :: "string \<Rightarrow> node \<Rightarrow> sim_state \<Rightarrow> sim_state" where
  "add_dir_ignored_stats dir_path (Dir n l es) st =
     (if l then add_ignored_entries (os_walk keep_all dir_path [] es) st else st)"
| "add_dir_ignored_stats dir_path (File n s ok) st = st"

fun add_ignored_dirs :: "string \<Rightarrow> node list \<Rightarrow> sim_state \<Rightarrow> sim_state" where
  "add_ignored_dirs root [] st = st"
| "add_ignored_dirs root (ignored # rest) st =
     add_ignored_dirs root rest (add_dir_ignored_stats (join root (node_name ignored)) ignored st)"

text \<open>The body of the file loop of the main walk.\<close>

fun sim_file :: "string \<Rightarrow> string \<Rightarrow> node \<Rightarrow> sim_state \<Rightarrow> sim_state" where
  "sim_file root rel_path (File file file_size ok) st =
     (let src_file = join root file
      in if \<not> ok then st
         else
           let ext = lower (splitext_ext file)
           in if should_ignore file {} default_exts default_files then
                st\<lparr>total_ignored_size := total_ignored_size st + file_size,
                   ignored_ext_stats := add_stat (ignored_ext_stats st) ext file_size\<rparr>
              else
                let dest_file = join (join ''SIMULATED_USB'' rel_path) file
                in st\<lparr>report := report st @ [would_copy_msg src_file dest_file],
                      total_copy_size := total_copy_size st + file_size,
                      copied_ext_stats := add_stat (copied_ext_stats st) ext file_size\<rparr>)"
| "sim_file root rel_path (Dir n l es) st = st"

fun sim_files :: "string \<Rightarrow> string \<Rightarrow> node list \<Rightarrow> sim_state \<Rightarrow> sim_state" where
  "sim_files root rel_path [] st = st"
| "sim_files root rel_path (file # files) st =
     sim_files root rel_path files (sim_file root rel_path file st)"

text \<open>
  The pruning of the simulation: \<^verbatim>\<open>ignored_dirs\<close> are the listed names that
  \<^verbatim>\<open>should_ignore\<close> accepts against the directory set, and
  \<^verbatim>\<open>dirs[:] = [d for d in dirs if d not in ignored_dirs]\<close>.
\<close>

definition sim_ignored_dirs :: "node list \<Rightarrow> node list" where
  "sim_ignored_dirs dirs = filter (\<lambda>d. should_ignore (node_name d) default_dirs {} {}) dirs"

definition sim_keep :: "string list \<Rightarrow> string \<Rightarrow> bool" where
  "sim_keep dirs d = (d \<notin> set (filter (\<lambda>d. should_ignore d default_dirs {} {}) dirs))"

fun sim_walk :: "walk_entry list \<Rightarrow> sim_state \<Rightarrow> sim_state" where
  "sim_walk [] st = st"
| "sim_walk (e # rest) st =
     (let st1 = add_ignored_dirs (we_root e) (sim_ignored_dirs (we_dirs e)) st;
          rel_path = relpath (we_rel e)
      in sim_walk rest (sim_files (we_root e) rel_path (we_files e) st1))"

text \<open>
  The walk loop of the script on \<^verbatim>\<open>test_folder\<close>, whose listing is \<open>listing\<close>
  (\<open>None\<close> when it does not exist). The header, the summary and the tables that
  the script prints around the loop are formatting of these accumulators.
\<close>

definition simulate :: "string \<Rightarrow> node list option \<Rightarrow> sim_state" where
  "simulate test_folder listing =
     (case listing of
        None \<Rightarrow> init_sim
      | Some es \<Rightarrow> sim_walk (os_walk sim_keep test_folder [] es) init_sim)"

section \<open>Specification-side notions\<close>

text \<open>
  The definitions of this section are not code of the scripts: they say, on the walk
  and on the tree, what the claims expect of a run.

  First the copy plan: the destination directory of one walked directory, the
  (source, destination) pairs of its files that pass the extension and file-name
  rules, the pairs of a whole walk in walk order, and the log record of a pair in a
  dry run and in execute mode.
\<close>

definition dest_path_of :: "params \<Rightarrow> walk_entry \<Rightarrow> string" where
  "dest_path_of ps e = join (dest_folder ps) (relpath (we_rel e))"

definition planned :: "params \<Rightarrow> walk_entry \<Rightarrow> (string \<times> string) list" where
  "planned ps e =
     map (\<lambda>file. (join (we_root e) file, join (dest_path_of ps e) file))
       (filter (\<lambda>file. \<not> should_ignore file {} (ignore_exts ps) (ignore_files ps))
          (map node_name (we_files e)))"

definition copy_plan :: "params \<Rightarrow> walk_entry list \<Rightarrow> (string \<times> string) list" where
  "copy_plan ps es = concat (map (planned ps) es)"

definition would_copy_record :: "string \<times> string \<Rightarrow> level \<times> string" where
  "would_copy_record p = (INFO, ''Would copy: '' @ fst p @ '' -> '' @ snd p)"

definition copy_record :: "env \<Rightarrow> string \<times> string \<Rightarrow> level \<times> string" where
  "copy_record env p =
     (case copy2_error env (fst p) (snd p) of
        None \<Rightarrow> (INFO, ''Copied: '' @ fst p @ '' -> '' @ snd p)
      | Some e \<Rightarrow> (ERROR, ''Failed to copy '' @ fst p @ '' to '' @ snd p @ '': '' @ e))"

text \<open>
  Sums over a tree of a weight given to each file: \<open>tree_sum\<close> over the files that
  a walk can reach (nothing below a directory that cannot be listed), \<open>disk_sum\<close>
  over all files on disk. \<open>readable\<close> holds of a tree in which every directory can
  be listed and every file's size can be read. The weights: the size of a file, its
  size when it can be read, and 1 when its size can be read and its lower-cased
  extension is \<open>x\<close>.
\<close>

fun tree_sum :: "(node \<Rightarrow> nat) \<Rightarrow> node \<Rightarrow> nat" where
  "tree_sum w (File n s ok) = w (File n s ok)"
| "tree_sum w (Dir n l es) = (if l then sum_list (map (tree_sum w) es) else 0)"

fun disk_sum :: "(node \<Rightarrow> nat) \<Rightarrow> node \<Rightarrow> nat" where
  "disk_sum w (File n s ok) = w (File n s ok)"
| "disk_sum w (Dir n l es) = sum_list (map (disk_sum w) es)"

fun readable :: "node \<Rightarrow> bool" where
  "readable (File n s ok) = ok"
| "readable (Dir n l es) = (l \<and> list_all readable es)"

fun file_bytes :: "node \<Rightarrow> nat" where
  "file_bytes (File n s ok) = s"
| "file_bytes (Dir n l es) = 0"

fun bytes_read :: "node \<Rightarrow> nat" where
  "bytes_read (File n s ok) = (if ok then s else 0)"
| "bytes_read (Dir n l es) = 0"

fun has_ext :: "string \<Rightarrow> node \<Rightarrow> nat" where
  "has_ext x (File n s ok) = (if ok \<and> lower (splitext_ext n) = x then 1 else 0)"
| "has_ext x (Dir n l es) = 0"

text \<open>
  The per-file rule of the simulation; the listed subdirectories that a walk does
  not enter; what one walked directory accounts for (its own files and everything
  under its pruned subdirectories); the two per-extension counters of a simulation
  state; and the share of a file in the ignored and in the copied bucket.
\<close>

definition excluded_file :: "node \<Rightarrow> bool" where
  "excluded_file f = should_ignore (node_name f) {} default_exts default_files"

definition pruned_dirs :: "(string list \<Rightarrow> string \<Rightarrow> bool) \<Rightarrow> node list \<Rightarrow> node list" where
  "pruned_dirs keep dirs = filter (\<lambda>d. \<not> keep (map node_name dirs) (node_name d)) dirs"

definition entry_sum :: "(string list \<Rightarrow> string \<Rightarrow> bool) \<Rightarrow> (node \<Rightarrow> nat) \<Rightarrow> walk_entry \<Rightarrow> nat" where
  "entry_sum keep w e =
     sum_list (map w (we_files e)) + sum_list (map (tree_sum w) (pruned_dirs keep (we_dirs e)))"

definition copied_count :: "string \<Rightarrow> sim_state \<Rightarrow> nat" where
  "copied_count x st = stat_count (get_stat (copied_ext_stats st) x)"

definition ignored_count :: "string \<Rightarrow> sim_state \<Rightarrow> nat" where
  "ignored_count x st = stat_count (get_stat (ignored_ext_stats st) x)"

definition ign_count :: "string \<Rightarrow> node \<Rightarrow> nat" where
  "ign_count x f = (if excluded_file f then has_ext x f else 0)"

definition cop_count :: "string \<Rightarrow> node \<Rightarrow> nat" where
  "cop_count x f = (if excluded_file f then 0 else has_ext x f)"

definition ign_bytes :: "node \<Rightarrow> nat" where
  "ign_bytes f = (if excluded_file f then bytes_read f else 0)"

definition cop_bytes :: "node \<Rightarrow> nat" where
  "cop_bytes f = (if excluded_file f then 0 else bytes_read f)"

text \<open>The report line expected for one file of a walked directory, if any.\<close>

fun sim_line :: "string \<Rightarrow> string \<Rightarrow> node \<Rightarrow> string list" where
  "sim_line root rel_path (File file s ok) =
     (if ok \<and> \<not> should_ignore file {} default_exts default_files
      then [''Would copy: '' @ join root file @ '' -> '' @ join (join ''SIMULATED_USB'' rel_path) file]
      else [])"
| "sim_line root rel_path (Dir n l es) = []"

definition sim_lines :: "walk_entry \<Rightarrow> string list" where
  "sim_lines e = concat (map (sim_line (we_root e) (relpath (we_rel e))) (we_files e))"

text \<open>
  Whether the size of a file can be read, and the files of a walked directory that
  pass the extension and file-name rules.
\<close>

fun stat_ok :: "node \<Rightarrow> bool" where
  "stat_ok (File n s ok) = ok"
| "stat_ok (Dir n l es) = False"

definition planned_files :: "params \<Rightarrow> walk_entry \<Rightarrow> node list" where
  "planned_files ps e =
     filter (\<lambda>f. \<not> should_ignore (node_name f) {} (ignore_exts ps) (ignore_files ps)) (we_files e)"

section \<open>Concrete inputs\<close>

text \<open>
  A project \<^verbatim>\<open>C:/proj\<close> holding \<^verbatim>\<open>a.txt\<close> and \<^verbatim>\<open>b.txt\<close> in \<^verbatim>\<open>sub\<close>, a removable
  drive \<^verbatim>\<open>E:\<close>, and a copy of \<^verbatim>\<open>a.txt\<close> that is denied; then the same without
  any removable drive, with a disk that fills up when \<^verbatim>\<open>sub\<close> is created, and with
  a project whose only entry is a directory that cannot be listed.
\<close>

definition drive_E :: string where
  "drive_E = ''E:'' @ [sep]"

definition small_tree :: "node list" where
  "small_tree = [File ''a.txt'' 10 True, Dir ''sub'' True [File ''b.txt'' 20 True]]"

definition small_env :: env where
  "small_env = \<lparr>drive_removable = (\<lambda>d. d = drive_E),
     scandir = (\<lambda>p. if p = ''C:/proj'' then Some small_tree else None),
     makedirs_error = (\<lambda>p. None),
     copy2_error = (\<lambda>s d. if s = ''C:/proj'' @ [sep] @ ''a.txt'' then Some ''denied'' else None),
     has_tqdm = False\<rparr>"

definition no_drive_env :: env where
  "no_drive_env = small_env\<lparr>drive_removable := (\<lambda>d. False)\<rparr>"

definition full_disk_env :: env where
  "full_disk_env = small_env\<lparr>copy2_error := (\<lambda>s d. None),
     makedirs_error := (\<lambda>p. if p = drive_E @ ''proj'' @ [sep] @ ''sub'' then Some ''disk full'' else None)\<rparr>"


text \<open>
  A larger project: a pruned \<^verbatim>\<open>node_modules\<close> with a nested directory and a file too
  long to stat, a file with an upper-case extension, a directory whose name ends
  with an excluded extension, a file named like an excluded directory, and a
  directory that cannot be listed. Then a project holding the single file \<^verbatim>\<open>a.txt\<close>.
\<close>

definition sample_tree :: "node list" where
  "sample_tree =
     [File ''a.txt'' 10 True,
      Dir ''node_modules'' True
        [File ''x.js'' 1000 True, Dir ''deep'' True [File ''y.exe'' 5 True], File ''long.js'' 7 False],
      File ''b.DLL'' 3 True, File ''c.dll'' 4 True,
      Dir ''sub'' True [File ''venv'' 2 True, File ''.gitignore'' 1 True],
      Dir ''x.cache'' True [File ''k.js'' 9 True],
      Dir ''locked'' False [File ''z.js'' 8 True]]"

definition one_file_env :: env where
  "one_file_env = small_env\<lparr>scandir :=
     (\<lambda>p. if p = ''C:/proj'' then Some [File ''a.txt'' 10 True] else None)\<rparr>"

text \<open>
  Two projects with a file whose size cannot be read, alone and beside a file whose
  size can be read; every copy succeeds.
\<close>

definition unstatable_env :: env where
  "unstatable_env = small_env\<lparr>copy2_error := (\<lambda>s d. None), scandir :=
     (\<lambda>p. if p = ''C:/proj'' then Some [File ''a.txt'' 10 False] else None)\<rparr>"

definition mixed_env :: env where
  "mixed_env = small_env\<lparr>copy2_error := (\<lambda>s d. None), scandir :=
     (\<lambda>p. if p = ''C:/proj'' then Some [File ''a.txt'' 10 False, File ''b.txt'' 5 True] else None)\<rparr>"

section \<open>Facts about the primitives\<close>

lemma endswith_iff: "endswith s suf \<longleftrightarrow> (\<exists>pre. s = pre @ suf)"
proof
  assume "endswith s suf"
  then have "s = take (length s - length suf) s @ suf"
    unfolding endswith_def by (metis append_take_drop_id)
  then show "\<exists>pre. s = pre @ suf" ..
next
  assume "\<exists>pre. s = pre @ suf"
  then show "endswith s suf"
    unfolding endswith_def by auto
qed



section \<open>The copy pass\<close>

lemma log_pbar_update1 [simp]: "log (pbar_update1 st) = log st"
  by (simp add: pbar_update1_def split: option.split prod.split)

lemma calls_pbar_update1 [simp]: "calls (pbar_update1 st) = calls st"
  by (simp add: pbar_update1_def split: option.split prod.split)

lemma copy_files_dry_log:
  "dry_run ps \<Longrightarrow>
   log (copy_files env ps root dest files st) =
     log st @ map would_copy_record
       (map (\<lambda>file. (join root file, join dest file))
          (filter (\<lambda>file. \<not> should_ignore file {} (ignore_exts ps) (ignore_files ps))
             (map node_name files)))"
  by (induction files arbitrary: st)
     (auto simp: copy_one_def Let_def would_copy_record_def would_copy_msg_def)


lemma copy_files_dry_calls:
  "dry_run ps \<Longrightarrow> calls (copy_files env ps root dest files st) = calls st"
  by (induction files arbitrary: st) (auto simp: copy_one_def Let_def)

lemma copy_files_exec_log:
  "\<not> dry_run ps \<Longrightarrow>
   log (copy_files env ps root dest files st) =
     log st @ map (copy_record env)
       (map (\<lambda>file. (join root file, join dest file))
          (filter (\<lambda>file. \<not> should_ignore file {} (ignore_exts ps) (ignore_files ps))
             (map node_name files)))"
  by (induction files arbitrary: st)
     (auto simp: copy_one_def Let_def copy_record_def copied_msg_def failed_msg_def split: option.split)

lemma copy_files_exec_calls:
  "\<not> dry_run ps \<Longrightarrow>
   calls (copy_files env ps root dest files st) =
     calls st @ map (\<lambda>p. Copy2 (fst p) (snd p))
       (map (\<lambda>file. (join root file, join dest file))
          (filter (\<lambda>file. \<not> should_ignore file {} (ignore_exts ps) (ignore_files ps))
             (map node_name files)))"
  by (induction files arbitrary: st)
     (auto simp: copy_one_def Let_def split: option.split)

lemma copy_walk_dry_step:
  "dry_run ps \<Longrightarrow> copy_walk env ps (e # es) st =
     copy_walk env ps es (copy_files env ps (we_root e) (dest_path_of ps e) (we_files e) st)"
  by (simp add: Let_def dest_path_of_def)

lemma copy_plan_Cons: "copy_plan ps (e # es) = planned ps e @ copy_plan ps es"
  by (simp add: copy_plan_def)

lemma copy_walk_dry:
  "dry_run ps \<Longrightarrow>
   fst (copy_walk env ps es st) = None
   \<and> log (snd (copy_walk env ps es st)) = log st @ map would_copy_record (copy_plan ps es)
   \<and> calls (snd (copy_walk env ps es st)) = calls st"
proof (induction es arbitrary: st)
  case Nil
  then show ?case by (simp add: copy_plan_def)
next
  case (Cons e es)
  let ?st1 = "copy_files env ps (we_root e) (dest_path_of ps e) (we_files e) st"
  have l1: "log ?st1 = log st @ map would_copy_record (planned ps e)"
    using Cons.prems by (simp add: copy_files_dry_log planned_def)
  have c1: "calls ?st1 = calls st"
    using Cons.prems by (simp add: copy_files_dry_calls)
  show ?case
    unfolding copy_walk_dry_step [OF Cons.prems] copy_plan_Cons
    using Cons.IH [OF Cons.prems, of ?st1] l1 c1 by simp
qed

lemma copy_walk_exec_fail:
  "\<not> dry_run ps \<Longrightarrow> makedirs_error env (dest_path_of ps e) = Some msg \<Longrightarrow>
   copy_walk env ps (e # es) st =
     (Some (OSError msg), st\<lparr>calls := calls st @ [Makedirs (dest_path_of ps e)]\<rparr>)"
  by (simp add: Let_def dest_path_of_def)

lemma copy_walk_exec_step:
  "\<not> dry_run ps \<Longrightarrow> makedirs_error env (dest_path_of ps e) = None \<Longrightarrow>
   copy_walk env ps (e # es) st =
     copy_walk env ps es
       (copy_files env ps (we_root e) (dest_path_of ps e) (we_files e)
          (st\<lparr>calls := calls st @ [Makedirs (dest_path_of ps e)]\<rparr>))"
  by (simp add: Let_def dest_path_of_def)

lemma copy_walk_exec:
  "\<not> dry_run ps \<Longrightarrow> \<forall>e \<in> set es. makedirs_error env (dest_path_of ps e) = None \<Longrightarrow>
   fst (copy_walk env ps es st) = None
   \<and> log (snd (copy_walk env ps es st)) = log st @ map (copy_record env) (copy_plan ps es)"
proof (induction es arbitrary: st)
  case Nil
  then show ?case by (simp add: copy_plan_def)
next
  case (Cons e es)
  let ?st1 = "copy_files env ps (we_root e) (dest_path_of ps e) (we_files e)
                (st\<lparr>calls := calls st @ [Makedirs (dest_path_of ps e)]\<rparr>)"
  have ok: "makedirs_error env (dest_path_of ps e) = None"
    and rest: "\<forall>e \<in> set es. makedirs_error env (dest_path_of ps e) = None"
    using Cons.prems(2) by simp_all
  have l1: "log ?st1 = log st @ map (copy_record env) (planned ps e)"
    using Cons.prems(1) by (simp add: copy_files_exec_log planned_def)
  show ?case
    unfolding copy_walk_exec_step [OF Cons.prems(1) ok] copy_plan_Cons
    using Cons.IH [OF Cons.prems(1) rest, of ?st1] l1 by simp
qed

lemma copy_walk_exec_complete:
  "\<not> dry_run ps \<Longrightarrow> fst (copy_walk env ps es st) = None \<Longrightarrow>
   log (snd (copy_walk env ps es st)) = log st @ map (copy_record env) (copy_plan ps es)"
proof (induction es arbitrary: st)
  case Nil
  then show ?case by (simp add: copy_plan_def)
next
  case (Cons e es)
  show ?case
  proof (cases "makedirs_error env (dest_path_of ps e)")
    case (Some msg)
    have "fst (copy_walk env ps (e # es) st) \<noteq> None"
      unfolding copy_walk_exec_fail [OF Cons.prems(1) Some] by simp
    with Cons.prems(2) show ?thesis by simp
  next
    case None
    let ?st1 = "copy_files env ps (we_root e) (dest_path_of ps e) (we_files e)
                  (st\<lparr>calls := calls st @ [Makedirs (dest_path_of ps e)]\<rparr>)"
    have step: "copy_walk env ps (e # es) st = copy_walk env ps es ?st1"
      by (rule copy_walk_exec_step [OF Cons.prems(1) None])
    have l1: "log ?st1 = log st @ map (copy_record env) (planned ps e)"
      using Cons.prems(1) by (simp add: copy_files_exec_log planned_def)
    have "fst (copy_walk env ps es ?st1) = None"
      using Cons.prems(2) by (simp only: step)
    then have "log (snd (copy_walk env ps es ?st1)) = log ?st1 @ map (copy_record env) (copy_plan ps es)"
      by (rule Cons.IH [OF Cons.prems(1)])
    then show ?thesis
      by (simp only: step copy_plan_Cons l1 map_append append_assoc)
  qed
qed

lemma copy_walk_exec_prefix:
  "\<not> dry_run ps \<Longrightarrow>
   \<exists>k. log (snd (copy_walk env ps es st)) = log st @ map (copy_record env) (take k (copy_plan ps es))
       \<and> (fst (copy_walk env ps es st) = None \<longrightarrow> k = length (copy_plan ps es))"
proof (induction es arbitrary: st)
  case Nil
  have "log (snd (copy_walk env ps [] st)) = log st @ map (copy_record env) (take 0 (copy_plan ps []))
       \<and> (fst (copy_walk env ps [] st) = None \<longrightarrow> 0 = length (copy_plan ps []))"
    by (simp add: copy_plan_def)
  then show ?case by (rule exI)
next
  case (Cons e es)
  show ?case
  proof (cases "makedirs_error env (dest_path_of ps e)")
    case (Some msg)
    have "log (snd (copy_walk env ps (e # es) st)) = log st @ map (copy_record env) (take 0 (copy_plan ps (e # es)))
       \<and> (fst (copy_walk env ps (e # es) st) = None \<longrightarrow> 0 = length (copy_plan ps (e # es)))"
      unfolding copy_walk_exec_fail [OF Cons.prems Some] by simp
    then show ?thesis by (rule exI)
  next
    case None
    let ?st1 = "copy_files env ps (we_root e) (dest_path_of ps e) (we_files e)
                  (st\<lparr>calls := calls st @ [Makedirs (dest_path_of ps e)]\<rparr>)"
    have step: "copy_walk env ps (e # es) st = copy_walk env ps es ?st1"
      by (rule copy_walk_exec_step [OF Cons.prems None])
    have l1: "log ?st1 = log st @ map (copy_record env) (planned ps e)"
      using Cons.prems by (simp add: copy_files_exec_log planned_def)
    from Cons.IH [OF Cons.prems, of ?st1] obtain k where
      k: "log (snd (copy_walk env ps es ?st1)) = log ?st1 @ map (copy_record env) (take k (copy_plan ps es))
          \<and> (fst (copy_walk env ps es ?st1) = None \<longrightarrow> k = length (copy_plan ps es))" ..
    have a: "log (snd (copy_walk env ps (e # es) st)) =
        log st @ map (copy_record env) (take (length (planned ps e) + k) (copy_plan ps (e # es)))"
      using k [THEN conjunct1] by (simp only: step copy_plan_Cons l1) simp
    have b: "fst (copy_walk env ps (e # es) st) = None \<longrightarrow>
        length (planned ps e) + k = length (copy_plan ps (e # es))"
      using k [THEN conjunct2] by (simp only: step copy_plan_Cons) simp
    from a b have "log (snd (copy_walk env ps (e # es) st)) =
        log st @ map (copy_record env) (take (length (planned ps e) + k) (copy_plan ps (e # es)))
      \<and> (fst (copy_walk env ps (e # es) st) = None \<longrightarrow>
        length (planned ps e) + k = length (copy_plan ps (e # es)))"
      by (rule conjI)
    then show ?thesis by (rule exI)
  qed
qed

section \<open>The walk and the simulation\<close>

lemma find_pendrive_from_none:
  "\<forall>letter \<in> set letters. \<not> is_pendrive env letter \<Longrightarrow>
   find_pendrive_from env letters = Inl (RuntimeError ''No pendrive detected.'')"
  by (induction letters) simp_all

lemma find_pendrive_from_cases:
  "find_pendrive_from env letters = Inl (RuntimeError ''No pendrive detected.'')
   \<or> (\<exists>letter. letter \<in> set letters \<and> is_pendrive env letter
         \<and> find_pendrive_from env letters = Inr ([letter] @ '':'' @ [sep]))"
  by (induction letters) auto

lemma copy_walk_dry_fst: "dry_run ps \<Longrightarrow> fst (copy_walk env ps es st) = None"
  by (simp add: copy_walk_dry)

lemma copy_walk_fst_indep:
  "makedirs_error env' = makedirs_error env \<Longrightarrow>
   fst (copy_walk env' ps es st') = fst (copy_walk env ps es st)"
proof (induction es arbitrary: st st')
  case Nil
  then show ?case by simp
next
  case (Cons e es)
  show ?case
  proof (cases "dry_run ps")
    case True
    then show ?thesis by (simp only: copy_walk_dry_fst)
  next
    case False
    show ?thesis
    proof (cases "makedirs_error env (dest_path_of ps e)")
      case (Some msg)
      then have "makedirs_error env' (dest_path_of ps e) = Some msg"
        using Cons.prems by simp
      then show ?thesis
        by (simp only: copy_walk_exec_fail [OF False Some] copy_walk_exec_fail [OF False] fst_conv)
    next
      case None
      then have n': "makedirs_error env' (dest_path_of ps e) = None"
        using Cons.prems by simp
      show ?thesis
        unfolding copy_walk_exec_step [OF False None] copy_walk_exec_step [OF False n']
        by (rule Cons.IH [OF Cons.prems])
    qed
  qed
qed

lemma os_walk_rel_root:
  "\<forall>e \<in> set (os_walk keep root rel es).
      \<exists>names. we_rel e = rel @ names \<and> we_root e = foldl join root names"
  "\<forall>e \<in> set (os_walk_dirs keep root rel ds).
      \<exists>names. we_rel e = rel @ names \<and> we_root e = foldl join root names"
proof (induction keep root rel es and keep root rel ds rule: os_walk_os_walk_dirs.induct)
  case (1 keep root rel es)
  then show ?case by (simp add: Let_def)
next
  case (2 keep root rel)
  then show ?case by simp
next
  case (3 keep root rel n s ok ds)
  then show ?case by simp
next
  case (4 keep root rel n l sub ds)
  show ?case
  proof
    fix e assume e: "e \<in> set (os_walk_dirs keep root rel (Dir n l sub # ds))"
    show "\<exists>names. we_rel e = rel @ names \<and> we_root e = foldl join root names"
    proof (cases "e \<in> set (os_walk_dirs keep root rel ds)")
      case True
      with 4(2) show ?thesis by simp
    next
      case False
      with e have l: l and "e \<in> set (os_walk keep (join root n) (rel @ [n]) sub)"
        by (auto split: if_splits)
      with 4(1) obtain names where
        "we_rel e = (rel @ [n]) @ names" "we_root e = foldl join (join root n) names"
        by auto
      then have "we_rel e = rel @ (n # names) \<and> we_root e = foldl join root (n # names)"
        by simp
      then show ?thesis by (rule exI)
    qed
  qed
qed

lemma os_walk_root_of_rel:
  "e \<in> set (os_walk keep root [] es) \<Longrightarrow> we_root e = foldl join root (we_rel e)"
  using os_walk_rel_root(1) [of keep root "[]" es] by auto




lemma sum_list_partition:
  "sum_list (map g (filter P xs)) + sum_list (map g (filter (\<lambda>x. \<not> P x) xs)) = (sum_list (map g xs) :: nat)"
  by (induction xs) auto

lemma tree_sum_nondirs:
  "map (tree_sum w) (filter (\<lambda>e. \<not> is_dir e) es) = map w (filter (\<lambda>e. \<not> is_dir e) es)"
proof -
  have "\<not> is_dir x \<Longrightarrow> tree_sum w x = w x" for x
    by (cases x) auto
  then show ?thesis by simp
qed

lemma tree_sum_split:
  "sum_list (map (tree_sum w) es) =
     sum_list (map w (filter (\<lambda>e. \<not> is_dir e) es)) + sum_list (map (tree_sum w) (filter is_dir es))"
  using sum_list_partition [of "tree_sum w" is_dir es] by (simp add: tree_sum_nondirs)

lemma filter_is_dir_idem: "filter is_dir (filter P (filter is_dir es)) = filter P (filter is_dir es)"
  by (induction es) auto

lemma walk_accounts_for_all:
  "sum_list (map (entry_sum keep w) (os_walk keep root rel es)) = sum_list (map (tree_sum w) es)"
  "sum_list (map (entry_sum keep w) (os_walk_dirs keep root rel ds)) =
     sum_list (map (tree_sum w) (filter is_dir ds))"
proof (induction keep root rel es and keep root rel ds rule: os_walk_os_walk_dirs.induct)
  case (1 keep root rel es)
  let ?dirs = "filter is_dir es"
  let ?kept = "filter (\<lambda>d. keep (map node_name ?dirs) (node_name d)) ?dirs"
  have ih: "sum_list (map (entry_sum keep w) (os_walk_dirs keep root rel ?kept)) =
      sum_list (map (tree_sum w) ?kept)"
    using 1 [OF refl refl] by (simp only: filter_is_dir_idem)
  have part: "sum_list (map (tree_sum w) (pruned_dirs keep ?dirs)) + sum_list (map (tree_sum w) ?kept)
      = sum_list (map (tree_sum w) ?dirs)"
    using sum_list_partition [of "tree_sum w" "\<lambda>d. keep (map node_name ?dirs) (node_name d)" ?dirs]
    by (simp add: pruned_dirs_def)
  have "sum_list (map (entry_sum keep w) (os_walk keep root rel es)) =
      sum_list (map w (filter (\<lambda>e. \<not> is_dir e) es))
      + sum_list (map (tree_sum w) (pruned_dirs keep ?dirs))
      + sum_list (map (tree_sum w) ?kept)"
    using ih by (simp add: Let_def entry_sum_def)
  also have "\<dots> = sum_list (map (tree_sum w) es)"
    using part by (simp add: tree_sum_split [of w es])
  finally show ?case .
next
  case (2 keep root rel)
  then show ?case by simp
next
  case (3 keep root rel n s ok ds)
  then show ?case by simp
next
  case (4 keep root rel n l sub ds)
  then show ?case by simp
qed

lemma stat_count_add_stat:
  "stat_count (get_stat (add_stat m e s) x) = stat_count (get_stat m x) + (if e = x then 1 else 0)"
  by (simp add: get_stat_def add_stat_def)

lemma add_ignored_file_effect:
  "total_ignored_size (add_ignored_file f st) = total_ignored_size st + bytes_read f"
  "ignored_count x (add_ignored_file f st) = ignored_count x st + has_ext x f"
  "total_copy_size (add_ignored_file f st) = total_copy_size st"
  "copied_count x (add_ignored_file f st) = copied_count x st"
  "report (add_ignored_file f st) = report st"
  by (cases f; simp add: Let_def ignored_count_def copied_count_def stat_count_add_stat)+

lemma add_ignored_files_effect:
  "total_ignored_size (add_ignored_files fs st) = total_ignored_size st + sum_list (map bytes_read fs)"
  "ignored_count x (add_ignored_files fs st) = ignored_count x st + sum_list (map (has_ext x) fs)"
  "total_copy_size (add_ignored_files fs st) = total_copy_size st"
  "copied_count x (add_ignored_files fs st) = copied_count x st"
  "report (add_ignored_files fs st) = report st"
  by (induction fs arbitrary: st; simp add: add_ignored_file_effect)+

lemma add_ignored_entries_effect:
  "total_ignored_size (add_ignored_entries es st) =
     total_ignored_size st + sum_list (map (entry_sum keep_all bytes_read) es)"
  "ignored_count x (add_ignored_entries es st) =
     ignored_count x st + sum_list (map (entry_sum keep_all (has_ext x)) es)"
  "total_copy_size (add_ignored_entries es st) = total_copy_size st"
  "copied_count x (add_ignored_entries es st) = copied_count x st"
  "report (add_ignored_entries es st) = report st"
  by (induction es arbitrary: st;
      simp add: add_ignored_files_effect entry_sum_def pruned_dirs_def keep_all_def)+

lemma add_dir_ignored_stats_effect:
  "is_dir d \<Longrightarrow> total_ignored_size (add_dir_ignored_stats p d st) =
     total_ignored_size st + tree_sum bytes_read d"
  "is_dir d \<Longrightarrow> ignored_count x (add_dir_ignored_stats p d st) =
     ignored_count x st + tree_sum (has_ext x) d"
  "total_copy_size (add_dir_ignored_stats p d st) = total_copy_size st"
  "copied_count x (add_dir_ignored_stats p d st) = copied_count x st"
  "report (add_dir_ignored_stats p d st) = report st"
  by (cases d; simp add: add_ignored_entries_effect walk_accounts_for_all del: os_walk.simps)+

lemma add_ignored_dirs_effect:
  "list_all is_dir ds \<Longrightarrow> total_ignored_size (add_ignored_dirs root ds st) =
     total_ignored_size st + sum_list (map (tree_sum bytes_read) ds)"
  "list_all is_dir ds \<Longrightarrow> ignored_count x (add_ignored_dirs root ds st) =
     ignored_count x st + sum_list (map (tree_sum (has_ext x)) ds)"
  "total_copy_size (add_ignored_dirs root ds st) = total_copy_size st"
  "copied_count x (add_ignored_dirs root ds st) = copied_count x st"
  "report (add_ignored_dirs root ds st) = report st"
  by (induction ds arbitrary: st; simp add: add_dir_ignored_stats_effect)+

lemma sim_file_effect:
  "total_ignored_size (sim_file root rp f st) = total_ignored_size st + ign_bytes f"
  "ignored_count x (sim_file root rp f st) = ignored_count x st + ign_count x f"
  "total_copy_size (sim_file root rp f st) = total_copy_size st + cop_bytes f"
  "copied_count x (sim_file root rp f st) = copied_count x st + cop_count x f"
  "report (sim_file root rp f st) = report st @ sim_line root rp f"
  by (cases f; simp add: Let_def ignored_count_def copied_count_def stat_count_add_stat
        ign_bytes_def ign_count_def cop_bytes_def cop_count_def excluded_file_def would_copy_msg_def)+

lemma sim_files_effect:
  "total_ignored_size (sim_files root rp fs st) = total_ignored_size st + sum_list (map ign_bytes fs)"
  "ignored_count x (sim_files root rp fs st) = ignored_count x st + sum_list (map (ign_count x) fs)"
  "total_copy_size (sim_files root rp fs st) = total_copy_size st + sum_list (map cop_bytes fs)"
  "copied_count x (sim_files root rp fs st) = copied_count x st + sum_list (map (cop_count x) fs)"
  "report (sim_files root rp fs st) = report st @ concat (map (sim_line root rp) fs)"
  by (induction fs arbitrary: st; simp add: sim_file_effect)+

lemma pruned_dirs_sim_keep: "pruned_dirs sim_keep dirs = sim_ignored_dirs dirs"
  unfolding pruned_dirs_def sim_ignored_dirs_def
  by (rule filter_cong [OF refl]) (auto simp: sim_keep_def)

lemma sim_ignored_dirs_all_dirs: "list_all is_dir dirs \<Longrightarrow> list_all is_dir (sim_ignored_dirs dirs)"
  by (simp add: sim_ignored_dirs_def list_all_iff)

lemma sim_walk_effect:
  assumes "\<forall>e \<in> set es. list_all is_dir (we_dirs e)"
  shows "total_ignored_size (sim_walk es st) =
           total_ignored_size st
           + sum_list (map (\<lambda>e. sum_list (map ign_bytes (we_files e))
                + sum_list (map (tree_sum bytes_read) (sim_ignored_dirs (we_dirs e)))) es)"
    and "ignored_count x (sim_walk es st) =
           ignored_count x st
           + sum_list (map (\<lambda>e. sum_list (map (ign_count x) (we_files e))
                + sum_list (map (tree_sum (has_ext x)) (sim_ignored_dirs (we_dirs e)))) es)"
    and "total_copy_size (sim_walk es st) =
           total_copy_size st + sum_list (map (\<lambda>e. sum_list (map cop_bytes (we_files e))) es)"
    and "copied_count x (sim_walk es st) =
           copied_count x st + sum_list (map (\<lambda>e. sum_list (map (cop_count x) (we_files e))) es)"
    and "report (sim_walk es st) = report st @ concat (map sim_lines es)"
  using assms
  by (induction es arbitrary: st;
      simp add: Let_def sim_files_effect add_ignored_dirs_effect sim_ignored_dirs_all_dirs sim_lines_def)+

lemma os_walk_dirs_are_dirs:
  "\<forall>e \<in> set (os_walk keep root rel es). list_all is_dir (we_dirs e)"
  "\<forall>e \<in> set (os_walk_dirs keep root rel ds). list_all is_dir (we_dirs e)"
proof (induction keep root rel es and keep root rel ds rule: os_walk_os_walk_dirs.induct)
  case (1 keep root rel es)
  have "list_all is_dir (filter is_dir es)"
    by (simp add: list_all_iff)
  with 1 [OF refl refl] show ?case
    by (simp add: Let_def)
next
  case (2 keep root rel)
  then show ?case by simp
next
  case (3 keep root rel n s ok ds)
  then show ?case by simp
next
  case (4 keep root rel n l sub ds)
  then show ?case by (simp del: os_walk.simps) blast
qed

lemma count_split: "cop_count x f + ign_count x f = has_ext x f"
  by (simp add: cop_count_def ign_count_def)

lemma bytes_split: "cop_bytes f + ign_bytes f = bytes_read f"
  by (simp add: cop_bytes_def ign_bytes_def)

lemma sum_list_map_add:
  "sum_list (map f xs) + sum_list (map g xs) = (sum_list (map (\<lambda>x. f x + g x) xs) :: nat)"
  by (induction xs) auto

lemma entry_count_split:
  "sum_list (map (cop_count x) (we_files e))
   + (sum_list (map (ign_count x) (we_files e))
      + sum_list (map (tree_sum (has_ext x)) (sim_ignored_dirs (we_dirs e))))
   = entry_sum sim_keep (has_ext x) e"
  by (simp add: entry_sum_def pruned_dirs_sim_keep sum_list_map_add count_split)

lemma entry_bytes_split:
  "sum_list (map cop_bytes (we_files e))
   + (sum_list (map ign_bytes (we_files e))
      + sum_list (map (tree_sum bytes_read) (sim_ignored_dirs (we_dirs e))))
   = entry_sum sim_keep bytes_read e"
  by (simp add: entry_sum_def pruned_dirs_sim_keep sum_list_map_add bytes_split)

lemma init_sim_zero:
  "total_ignored_size init_sim = 0" "total_copy_size init_sim = 0"
  "ignored_count x init_sim = 0" "copied_count x init_sim = 0" "report init_sim = []"
  by (simp_all add: init_sim_def ignored_count_def copied_count_def get_stat_def)

lemma simulate_counts_total:
  "copied_count x (simulate folder (Some es)) + ignored_count x (simulate folder (Some es))
     = sum_list (map (tree_sum (has_ext x)) es)"
proof -
  let ?w = "os_walk sim_keep folder [] es"
  have d: "\<forall>e \<in> set ?w. list_all is_dir (we_dirs e)"
    by (rule os_walk_dirs_are_dirs)
  have "copied_count x (sim_walk ?w init_sim) + ignored_count x (sim_walk ?w init_sim)
      = sum_list (map (entry_sum sim_keep (has_ext x)) ?w)"
    unfolding sim_walk_effect [OF d] init_sim_zero
    by (simp only: sum_list_map_add entry_count_split add_0)
  then show ?thesis
    by (simp only: simulate_def option.case walk_accounts_for_all)
qed

lemma simulate_bytes_total:
  "total_copy_size (simulate folder (Some es)) + total_ignored_size (simulate folder (Some es))
     = sum_list (map (tree_sum bytes_read) es)"
proof -
  let ?w = "os_walk sim_keep folder [] es"
  have d: "\<forall>e \<in> set ?w. list_all is_dir (we_dirs e)"
    by (rule os_walk_dirs_are_dirs)
  have "total_copy_size (sim_walk ?w init_sim) + total_ignored_size (sim_walk ?w init_sim)
      = sum_list (map (entry_sum sim_keep bytes_read) ?w)"
    unfolding sim_walk_effect [OF d] init_sim_zero
    by (simp only: sum_list_map_add entry_bytes_split add_0)
  then show ?thesis
    by (simp only: simulate_def option.case walk_accounts_for_all)
qed

lemma readable_tree_sum:
  "readable d \<Longrightarrow> tree_sum bytes_read d = disk_sum file_bytes d"
proof (induction d)
  case (File n s ok)
  then show ?case by simp
next
  case (Dir n l es)
  have "map (tree_sum bytes_read) es = map (disk_sum file_bytes) es"
  proof (rule map_cong [OF refl])
    fix c assume c: "c \<in> set es"
    with Dir.prems have "readable c" by (simp add: list_all_iff)
    with c show "tree_sum bytes_read c = disk_sum file_bytes c" by (rule Dir.IH)
  qed
  then have "sum_list (map (tree_sum bytes_read) es) = sum_list (map (disk_sum file_bytes) es)"
    by (rule arg_cong)
  moreover have l using Dir.prems by simp
  ultimately show ?case by (simp only: tree_sum.simps disk_sum.simps if_True)
qed

section \<open>The whole run\<close>

lemma walk_source_copy2 [simp]: "walk_source (env\<lparr>copy2_error := other\<rparr>) ps src = walk_source env ps src"
  by (simp add: walk_source_def)

lemma find_pendrive_from_copy2 [simp]:
  "find_pendrive_from (env\<lparr>copy2_error := other\<rparr>) letters = find_pendrive_from env letters"
  by (induction letters) (simp_all add: is_pendrive_def)

lemma smart_copy_unfold:
  "find_pendrive env = Inr pendrive_root \<Longrightarrow>
   smart_copy_to_pendrive env src_folder dirs_arg exts_arg files_arg dry =
     copy_walk env (make_params pendrive_root src_folder dirs_arg exts_arg files_arg dry)
       (walk_source env (make_params pendrive_root src_folder dirs_arg exts_arg files_arg dry) src_folder)
       (init_state\<lparr>pbar := (if has_tqdm env \<and> \<not> dry
           then Some (count_total_files (make_params pendrive_root src_folder dirs_arg exts_arg files_arg dry)
                  (walk_source env (make_params pendrive_root src_folder dirs_arg exts_arg files_arg dry) src_folder), 0)
           else None)\<rparr>)"
  by (simp add: smart_copy_to_pendrive_def Let_def)

lemma smart_copy_fst_indep:
  "fst (smart_copy_to_pendrive (env\<lparr>copy2_error := other\<rparr>) src_folder dirs_arg exts_arg files_arg dry)
     = fst (smart_copy_to_pendrive env src_folder dirs_arg exts_arg files_arg dry)"
proof (cases "find_pendrive env")
  case (Inl e)
  then show ?thesis by (simp add: smart_copy_to_pendrive_def find_pendrive_def)
next
  case (Inr r)
  then have r': "find_pendrive (env\<lparr>copy2_error := other\<rparr>) = Inr r"
    by (simp add: find_pendrive_def)
  have m: "makedirs_error (env\<lparr>copy2_error := other\<rparr>) = makedirs_error env"
    by simp
  show ?thesis
    unfolding smart_copy_unfold [OF Inr] smart_copy_unfold [OF r'] walk_source_copy2
    by (rule copy_walk_fst_indep [OF m])
qed

lemma copy_plan_dry_indep:
  "copy_plan (make_params r src a b c d1) es = copy_plan (make_params r src a b c d2) es"
proof -
  have "planned (make_params r src a b c d1) e = planned (make_params r src a b c d2) e" for e
    by (simp add: planned_def dest_path_of_def make_params_def)
  then have "planned (make_params r src a b c d1) = planned (make_params r src a b c d2)"
    by (rule ext)
  then show ?thesis by (simp only: copy_plan_def)
qed

lemma walk_source_dry_indep:
  "walk_source env (make_params r src a b c d1) src = walk_source env (make_params r src a b c d2) src"
  by (simp add: walk_source_def make_params_def split: option.split)

lemma dry_run_make_params [simp]: "dry_run (make_params r src a b c d) = d"
  by (simp add: make_params_def)



lemma log_smart_copy_dry:
  assumes "find_pendrive env = Inr pendrive_root"
    and "ps = make_params pendrive_root src_folder dirs_arg exts_arg files_arg True"
  shows "log (snd (smart_copy_to_pendrive env src_folder dirs_arg exts_arg files_arg True)) =
     map would_copy_record (copy_plan ps (walk_source env ps src_folder))"
proof -
  have dd: "dry_run ps" using assms(2) by simp
  let ?st0 = "init_state\<lparr>pbar := (if has_tqdm env \<and> \<not> True
           then Some (count_total_files ps (walk_source env ps src_folder), 0) else None)\<rparr>"
  have run: "smart_copy_to_pendrive env src_folder dirs_arg exts_arg files_arg True =
      copy_walk env ps (walk_source env ps src_folder) ?st0"
    unfolding assms(2) by (rule smart_copy_unfold [OF assms(1)])
  have l0: "log ?st0 = []" by (simp add: init_state_def)
  show ?thesis
    unfolding run using copy_walk_dry [OF dd, of env "walk_source env ps src_folder" ?st0]
    by (simp only: l0 append_Nil)
qed

lemma walk_source_roots:
  "\<forall>e \<in> set (walk_source env ps src_folder). we_root e = foldl join src_folder (we_rel e)"
  by (auto simp: walk_source_def os_walk_root_of_rel simp del: os_walk.simps split: option.split)

lemma report_simulate:
  "report (simulate test_folder (Some es)) = concat (map sim_lines (os_walk sim_keep test_folder [] es))"
proof -
  have d: "\<forall>e \<in> set (os_walk sim_keep test_folder [] es). list_all is_dir (we_dirs e)"
    by (rule os_walk_dirs_are_dirs)
  show ?thesis
    by (simp only: simulate_def option.case sim_walk_effect(5) [OF d] init_sim_zero append_Nil)
qed

lemma dry_run_same_plan:
  "calls (snd (smart_copy_to_pendrive env src_folder dirs_arg exts_arg files_arg True)) = []
   \<and> (\<exists>plan k.
         log (snd (smart_copy_to_pendrive env src_folder dirs_arg exts_arg files_arg True))
           = map would_copy_record plan
       \<and> log (snd (smart_copy_to_pendrive env src_folder dirs_arg exts_arg files_arg False))
           = map (copy_record env) (take k plan)
       \<and> (fst (smart_copy_to_pendrive env src_folder dirs_arg exts_arg files_arg False) = None
            \<longrightarrow> k = length plan))"
proof (cases "find_pendrive env")
  case (Inl e)
  have "log (snd (smart_copy_to_pendrive env src_folder dirs_arg exts_arg files_arg True))
           = map would_copy_record []
       \<and> log (snd (smart_copy_to_pendrive env src_folder dirs_arg exts_arg files_arg False))
           = map (copy_record env) (take 0 [])
       \<and> (fst (smart_copy_to_pendrive env src_folder dirs_arg exts_arg files_arg False) = None
            \<longrightarrow> 0 = length ([] :: (string \<times> string) list))"
    using Inl by (simp add: smart_copy_to_pendrive_def init_state_def)
  then have "\<exists>plan k.
         log (snd (smart_copy_to_pendrive env src_folder dirs_arg exts_arg files_arg True))
           = map would_copy_record plan
       \<and> log (snd (smart_copy_to_pendrive env src_folder dirs_arg exts_arg files_arg False))
           = map (copy_record env) (take k plan)
       \<and> (fst (smart_copy_to_pendrive env src_folder dirs_arg exts_arg files_arg False) = None
            \<longrightarrow> k = length plan)"
    by (intro exI)
  moreover have "calls (snd (smart_copy_to_pendrive env src_folder dirs_arg exts_arg files_arg True)) = []"
    using Inl by (simp add: smart_copy_to_pendrive_def init_state_def)
  ultimately show ?thesis by (intro conjI)
next
  case (Inr r)
  let ?pd = "make_params r src_folder dirs_arg exts_arg files_arg True"
  let ?pe = "make_params r src_folder dirs_arg exts_arg files_arg False"
  let ?w = "walk_source env ?pd src_folder"
  have w: "walk_source env ?pe src_folder = ?w" by (rule walk_source_dry_indep)
  have pl: "copy_plan ?pe ?w = copy_plan ?pd ?w" by (rule copy_plan_dry_indep)
  let ?sd = "init_state\<lparr>pbar := (if has_tqdm env \<and> \<not> True
           then Some (count_total_files ?pd ?w, 0) else None)\<rparr>"
  let ?se = "init_state\<lparr>pbar := (if has_tqdm env \<and> \<not> False
           then Some (count_total_files ?pe ?w, 0) else None)\<rparr>"
  have rd: "smart_copy_to_pendrive env src_folder dirs_arg exts_arg files_arg True = copy_walk env ?pd ?w ?sd"
    by (rule smart_copy_unfold [OF Inr])
  have re: "smart_copy_to_pendrive env src_folder dirs_arg exts_arg files_arg False = copy_walk env ?pe ?w ?se"
    using smart_copy_unfold [OF Inr, of src_folder dirs_arg exts_arg files_arg False] by (simp only: w)
  have dd: "dry_run ?pd" and de: "\<not> dry_run ?pe" by simp_all
  have l0: "log ?sd = []" "calls ?sd = []" "log ?se = []" by (simp_all add: init_state_def)
  have c: "calls (snd (copy_walk env ?pd ?w ?sd)) = []"
    and ld: "log (snd (copy_walk env ?pd ?w ?sd)) = map would_copy_record (copy_plan ?pd ?w)"
    using copy_walk_dry [OF dd, of env ?w ?sd] by (simp_all only: l0 append_Nil)
  from copy_walk_exec_prefix [OF de, of env ?w ?se] obtain k where
    k: "log (snd (copy_walk env ?pe ?w ?se)) = log ?se @ map (copy_record env) (take k (copy_plan ?pe ?w))
        \<and> (fst (copy_walk env ?pe ?w ?se) = None \<longrightarrow> k = length (copy_plan ?pe ?w))" ..
  have le: "log (snd (copy_walk env ?pe ?w ?se)) = map (copy_record env) (take k (copy_plan ?pd ?w))"
    using k [THEN conjunct1] by (simp only: l0 append_Nil pl)
  have lf: "fst (copy_walk env ?pe ?w ?se) = None \<longrightarrow> k = length (copy_plan ?pd ?w)"
    using k [THEN conjunct2] by (simp only: pl)
  from ld le lf have "log (snd (copy_walk env ?pd ?w ?sd)) = map would_copy_record (copy_plan ?pd ?w)
      \<and> log (snd (copy_walk env ?pe ?w ?se)) = map (copy_record env) (take k (copy_plan ?pd ?w))
      \<and> (fst (copy_walk env ?pe ?w ?se) = None \<longrightarrow> k = length (copy_plan ?pd ?w))"
    by (intro conjI)
  then have "\<exists>plan k. log (snd (copy_walk env ?pd ?w ?sd)) = map would_copy_record plan
      \<and> log (snd (copy_walk env ?pe ?w ?se)) = map (copy_record env) (take k plan)
      \<and> (fst (copy_walk env ?pe ?w ?se) = None \<longrightarrow> k = length plan)"
    by (intro exI)
  with c show ?thesis
    unfolding rd re by (intro conjI)
qed

lemma os_walk_keep_cong:
  assumes "\<And>names d. d \<in> set names \<Longrightarrow> k1 names d = k2 names d"
  shows "os_walk k1 root rel es = os_walk k2 root rel es"
    and "os_walk_dirs k1 root rel ds = os_walk_dirs k2 root rel ds"
  using assms
proof (induction k1 root rel es and k1 root rel ds rule: os_walk_os_walk_dirs.induct)
  case (1 keep root rel es)
  let ?dirs = "filter is_dir es"
  have f: "filter (\<lambda>d. keep (map node_name ?dirs) (node_name d)) ?dirs
      = filter (\<lambda>d. k2 (map node_name ?dirs) (node_name d)) ?dirs"
    by (rule filter_cong [OF refl]) (simp add: 1(2))
  have "os_walk_dirs keep root rel (filter (\<lambda>d. keep (map node_name ?dirs) (node_name d)) ?dirs)
      = os_walk_dirs k2 root rel (filter (\<lambda>d. keep (map node_name ?dirs) (node_name d)) ?dirs)"
    by (rule 1(1) [OF refl refl 1(2)])
  then show ?case
    unfolding os_walk.simps Let_def by (simp only: f)
next
  case (2 keep root rel)
  then show ?case by simp
next
  case (3 keep root rel n s ok ds)
  then show ?case by simp
next
  case (4 keep root rel n l sub ds)
  have a: "l \<Longrightarrow> os_walk keep (join root n) (rel @ [n]) sub = os_walk k2 (join root n) (rel @ [n]) sub"
    by (rule 4(1) [OF _ 4(3)])
  have b: "os_walk_dirs keep root rel ds = os_walk_dirs k2 root rel ds"
    by (rule 4(2) [OF 4(3)])
  show ?case
    using a b by (simp del: os_walk.simps)
qed

lemma sim_keep_is_keep_dir:
  "d \<in> set names \<Longrightarrow> sim_keep names d = keep_dir default_dirs names d"
  by (simp add: sim_keep_def keep_dir_def)

lemma os_walk_sim_keep:
  "os_walk sim_keep root rel es = os_walk (keep_dir default_dirs) root rel es"
  by (rule os_walk_keep_cong(1)) (rule sim_keep_is_keep_dir)

lemma sim_line_filter:
  "concat (map (sim_line root rp) fs) =
     map (\<lambda>f. ''Would copy: '' @ join root (node_name f) @ '' -> ''
                 @ join (join ''SIMULATED_USB'' rp) (node_name f))
       (filter (\<lambda>f. stat_ok f \<and> \<not> should_ignore (node_name f) {} default_exts default_files) fs)"
proof (induction fs)
  case Nil
  then show ?case by simp
next
  case (Cons f fs)
  then show ?case by (cases f) simp_all
qed

lemma planned_by_files:
  "planned ps e =
     map (\<lambda>f. (join (we_root e) (node_name f), join (dest_path_of ps e) (node_name f)))
       (planned_files ps e)"
  by (simp add: planned_def planned_files_def filter_map comp_def)

lemma walk_source_some:
  "scandir env src_folder = Some es \<Longrightarrow>
   walk_source env ps src_folder = os_walk (keep_dir (ignore_dirs ps)) src_folder [] es"
  by (simp add: walk_source_def del: os_walk.simps)

lemma sim_lines_planned:
  assumes "ignore_exts ps = default_exts" and "ignore_files ps = default_files"
  shows "sim_lines e =
     map (\<lambda>f. ''Would copy: '' @ join (we_root e) (node_name f) @ '' -> ''
                 @ join (join ''SIMULATED_USB'' (relpath (we_rel e))) (node_name f))
       (filter stat_ok (planned_files ps e))"
proof -
  have "filter stat_ok (planned_files ps e) =
      filter (\<lambda>f. stat_ok f \<and> \<not> should_ignore (node_name f) {} default_exts default_files) (we_files e)"
    unfolding planned_files_def assms filter_filter
    by (rule filter_cong [OF refl]) auto
  then show ?thesis
    by (simp only: sim_lines_def sim_line_filter)
qed

lemma simulate_report_planned:
  assumes "scandir env src_folder = Some es"
    and "ps = make_params pendrive_root src_folder None None None dry"
  shows "report (simulate src_folder (Some es)) =
      concat (map (\<lambda>e.
          map (\<lambda>f. ''Would copy: '' @ join (we_root e) (node_name f) @ '' -> ''
                 @ join (join ''SIMULATED_USB'' (relpath (we_rel e))) (node_name f))
            (filter stat_ok (planned_files ps e)))
        (walk_source env ps src_folder))"
proof -
  have d: "ignore_dirs ps = default_dirs" and x: "ignore_exts ps = default_exts"
    and f: "ignore_files ps = default_files"
    using assms(2) by (simp_all add: make_params_def)
  have w: "walk_source env ps src_folder = os_walk sim_keep src_folder [] es"
    by (simp only: walk_source_some [OF assms(1)] d os_walk_sim_keep)
  have l: "sim_lines = (\<lambda>e.
          map (\<lambda>f. ''Would copy: '' @ join (we_root e) (node_name f) @ '' -> ''
                 @ join (join ''SIMULATED_USB'' (relpath (we_rel e))) (node_name f))
            (filter stat_ok (planned_files ps e)))"
    by (rule ext) (rule sim_lines_planned [OF x f])
  show ?thesis
    by (simp only: report_simulate w l)
qed

lemma smart_copy_dry_log_planned:
  assumes "find_pendrive env = Inr pendrive_root"
    and "ps = make_params pendrive_root src_folder dirs_arg exts_arg files_arg True"
  shows "log (snd (smart_copy_to_pendrive env src_folder dirs_arg exts_arg files_arg True)) =
      concat (map (\<lambda>e.
          map (\<lambda>f. (INFO, ''Would copy: '' @ join (we_root e) (node_name f) @ '' -> ''
                 @ join (dest_path_of ps e) (node_name f)))
            (planned_files ps e))
        (walk_source env ps src_folder))"
  unfolding log_smart_copy_dry [OF assms]
  by (simp add: copy_plan_def planned_by_files would_copy_record_def map_concat comp_def)






section \<open>Claims\<close>

text \<open>
  C1, as stated, fails: a file whose size cannot be read is counted in neither
  bucket, whether it lies in a walked directory (\<^verbatim>\<open>a.txt\<close>) or in a pruned one
  (\<^verbatim>\<open>b.py\<close> in \<^verbatim>\<open>venv\<close>), and no line is written for it.
\<close>

theorem unreadable_file_in_no_bucket:
  "copied_count ''.txt'' (simulate ''C:/proj'' (Some [File ''a.txt'' 10 False, Dir ''venv'' True [File ''b.py'' 5 False]])) = 0
   \<and> ignored_count ''.txt'' (simulate ''C:/proj'' (Some [File ''a.txt'' 10 False, Dir ''venv'' True [File ''b.py'' 5 False]])) = 0
   \<and> copied_count ''.py'' (simulate ''C:/proj'' (Some [File ''a.txt'' 10 False, Dir ''venv'' True [File ''b.py'' 5 False]])) = 0
   \<and> ignored_count ''.py'' (simulate ''C:/proj'' (Some [File ''a.txt'' 10 False, Dir ''venv'' True [File ''b.py'' 5 False]])) = 0
   \<and> report (simulate ''C:/proj'' (Some [File ''a.txt'' 10 False, Dir ''venv'' True [File ''b.py'' 5 False]])) = []"
  by code_simp

text \<open>
  C1, amended. One run of the simulation counts every file whose size can be read
  and that lies under directories that can be listed exactly once, in exactly one
  bucket. For every extension \<open>x\<close>: the copied bucket counts the files of the
  walked directories that the extension and file-name rules let through; the ignored
  bucket counts the files of the walked directories that these rules exclude, plus,
  for each pruned directory of a walked directory, every file under it at any depth;
  and the two counts add up to the number of such files in the whole tree, as the
  two size totals add up to their bytes.
\<close>

theorem every_readable_file_in_one_bucket:
  "copied_count x (simulate test_folder (Some es)) =
     sum_list (map (\<lambda>e. sum_list (map (cop_count x) (we_files e))) (os_walk sim_keep test_folder [] es))
   \<and> ignored_count x (simulate test_folder (Some es)) =
     sum_list (map (\<lambda>e. sum_list (map (ign_count x) (we_files e))
                 + sum_list (map (tree_sum (has_ext x)) (sim_ignored_dirs (we_dirs e))))
        (os_walk sim_keep test_folder [] es))
   \<and> copied_count x (simulate test_folder (Some es)) + ignored_count x (simulate test_folder (Some es))
       = sum_list (map (tree_sum (has_ext x)) es)
   \<and> total_copy_size (simulate test_folder (Some es)) + total_ignored_size (simulate test_folder (Some es))
       = sum_list (map (tree_sum bytes_read) es)"
proof -
  have d: "\<forall>e \<in> set (os_walk sim_keep test_folder [] es). list_all is_dir (we_dirs e)"
    by (rule os_walk_dirs_are_dirs)
  have a: "copied_count x (simulate test_folder (Some es)) =
     sum_list (map (\<lambda>e. sum_list (map (cop_count x) (we_files e))) (os_walk sim_keep test_folder [] es))"
    by (simp only: simulate_def option.case sim_walk_effect(4) [OF d] init_sim_zero add_0)
  have b: "ignored_count x (simulate test_folder (Some es)) =
     sum_list (map (\<lambda>e. sum_list (map (ign_count x) (we_files e))
                 + sum_list (map (tree_sum (has_ext x)) (sim_ignored_dirs (we_dirs e))))
        (os_walk sim_keep test_folder [] es))"
    by (simp only: simulate_def option.case sim_walk_effect(2) [OF d] init_sim_zero add_0)
  show ?thesis
    using a b simulate_counts_total simulate_bytes_total by (intro conjI)
qed

theorem every_readable_file_in_one_bucket_witness:
  "copied_count ''.js'' (simulate ''C:/proj'' (Some sample_tree)) = 1
   \<and> ignored_count ''.js'' (simulate ''C:/proj'' (Some sample_tree)) = 1
   \<and> copied_count ''.js'' (simulate ''C:/proj'' (Some sample_tree))
       + ignored_count ''.js'' (simulate ''C:/proj'' (Some sample_tree)) = 2
   \<and> total_copy_size (simulate ''C:/proj'' (Some sample_tree))
       + total_ignored_size (simulate ''C:/proj'' (Some sample_tree)) = 1034"
proof -
  note t = every_readable_file_in_one_bucket [where x = "''.js''" and test_folder = "''C:/proj''"
      and es = sample_tree]
  show ?thesis
    unfolding t [THEN conjunct1] t [THEN conjunct2, THEN conjunct1]
      t [THEN conjunct2, THEN conjunct2, THEN conjunct2]
    by code_simp
qed

text \<open>
  C2, as stated, fails: under a pruned directory, a file whose size cannot be read
  and the files of a subdirectory that cannot be listed add nothing to the ignored
  total, though they are on disk with 12 bytes.
\<close>

theorem pruned_dir_size_counterexample:
  "total_ignored_size
     (add_dir_ignored_stats (''C:/proj'' @ [sep] @ ''venv'')
        (Dir ''venv'' True [File ''big.py'' 5 False, Dir ''lib'' False [File ''x.py'' 7 True]]) init_sim) = 0
   \<and> disk_sum file_bytes (Dir ''venv'' True [File ''big.py'' 5 False, Dir ''lib'' False [File ''x.py'' 7 True]]) = 12"
  by code_simp

text \<open>
  C2, amended. For a pruned directory, \<^verbatim>\<open>add_dir_ignored_stats\<close> adds to the ignored
  total the sizes of all files under it, at every depth and whatever their names,
  each once, that lie under directories that can be listed and whose size can be
  read. When everything under the directory can be listed and read, that is the sum
  of the sizes of all files under it.
\<close>

theorem pruned_dir_size:
  "is_dir d \<Longrightarrow>
   total_ignored_size (add_dir_ignored_stats dir_path d sim) = total_ignored_size sim + tree_sum bytes_read d
   \<and> (readable d \<longrightarrow>
        total_ignored_size (add_dir_ignored_stats dir_path d sim)
          = total_ignored_size sim + disk_sum file_bytes d)"
  by (simp add: add_dir_ignored_stats_effect readable_tree_sum)

theorem pruned_dir_size_witness:
  "total_ignored_size
     (add_dir_ignored_stats (''C:/proj'' @ [sep] @ ''node_modules'')
        (Dir ''node_modules'' True [File ''x.js'' 1000 True, Dir ''dist'' True [File ''y.exe'' 5 True]])
        init_sim) = 1005"
proof -
  let ?d = "Dir ''node_modules'' True [File ''x.js'' 1000 True, Dir ''dist'' True [File ''y.exe'' 5 True]]"
  have h: "is_dir ?d" by simp
  have r: "readable ?d" by simp
  have v: "total_ignored_size init_sim + disk_sum file_bytes ?d = 1005"
    by code_simp
  note t = pruned_dir_size [OF h, where dir_path = "''C:/proj'' @ [sep] @ ''node_modules''" and sim = init_sim]
  show ?thesis
    using t [THEN conjunct2, THEN mp, OF r] by (simp only: v)
qed

text \<open>
  C3. For every base name and every triple of sets (directory names, extensions,
  file names), the exclusion predicate returns true if and only if the base name is
  exactly an element of the directory-name set or of the file-name set, or it ends
  with some element of the extension set as a literal string suffix: the name is
  some prefix followed by that element, whether or not the element starts at the
  last dot. Equality and suffix are on the characters as they are, so the match is
  case-sensitive.
\<close>

theorem should_ignore_iff:
  "should_ignore path dirs exts files \<longleftrightarrow>
     basename path \<in> dirs \<or> basename path \<in> files
     \<or> (\<exists>ext \<in> exts. \<exists>pre. basename path = pre @ ext)"
  by (auto simp: should_ignore_def Let_def endswith_iff)

theorem should_ignore_iff_witness:
  "should_ignore ''foo.cache'' {} {''.cache''} {} \<and> should_ignore ''foo.cache'' {} {''che''} {}
   \<and> should_ignore ''venv'' {''venv''} {} {} \<and> \<not> should_ignore ''b.DLL'' {} {''.dll''} {}"
proof -
  have b: "basename ''foo.cache'' = ''foo'' @ ''.cache''" "basename ''foo.cache'' = ''foo.ca'' @ ''che''"
    "basename ''venv'' = ''venv''"
    by code_simp+
  have "should_ignore ''foo.cache'' {} {''.cache''} {}"
    unfolding should_ignore_iff by (intro disjI2 bexI exI) (rule b(1), simp)
  moreover have "should_ignore ''foo.cache'' {} {''che''} {}"
    unfolding should_ignore_iff by (intro disjI2 bexI exI) (rule b(2), simp)
  moreover have "should_ignore ''venv'' {''venv''} {} {}"
    unfolding should_ignore_iff by (simp only: b(3) insertI1 simp_thms)
  moreover have "\<not> should_ignore ''b.DLL'' {} {''.dll''} {}"
    by code_simp
  ultimately show ?thesis by (intro conjI)
qed

text \<open>
  C4, at an input where it fails. The disk fills up when the second destination
  directory is created: \<^verbatim>\<open>os.makedirs\<close> raises outside any \<^verbatim>\<open>try\<close>, the exception
  leaves \<^verbatim>\<open>smart_copy_to_pendrive\<close> after \<^verbatim>\<open>a.txt\<close> was copied and before
  \<^verbatim>\<open>b.txt\<close> of \<^verbatim>\<open>sub\<close> is attempted. The run ended part-way through the batch.
\<close>

theorem makedirs_failure_stops_midway:
  "smart_copy_to_pendrive full_disk_env ''C:/proj'' None None None False =
     (Some (OSError ''disk full''),
      \<lparr>log = [(INFO, ''Copied: C:/proj'' @ [sep] @ ''a.txt -> E:'' @ [sep] @ ''proj'' @ [sep] @ ''.''
                        @ [sep] @ ''a.txt'')],
       calls = [Makedirs (''E:'' @ [sep] @ ''proj'' @ [sep] @ ''.''),
                Copy2 (''C:/proj'' @ [sep] @ ''a.txt'')
                      (''E:'' @ [sep] @ ''proj'' @ [sep] @ ''.'' @ [sep] @ ''a.txt''),
                Makedirs (''E:'' @ [sep] @ ''proj'' @ [sep] @ ''sub'')],
       pbar = None\<rparr>)"
  by code_simp




text \<open>
  C6. In execute mode a copy that raises is caught: the log gets an error record
  with the source path, the destination path and the cause, and the run goes on
  with the next file. With a removable drive found and every destination directory
  created, the run returns normally and its log holds one record for every file of
  the plan, in walk order: \<^verbatim>\<open>Copied\<close> when the copy succeeds, \<^verbatim>\<open>Failed to copy\<close>
  when it raises. Whether a run returns normally never depends on the outcome of
  any copy.
\<close>

theorem copy_failure_logged_batch_continues:
  assumes "find_pendrive env = Inr pendrive_root"
    and "ps = make_params pendrive_root src_folder dirs_arg exts_arg files_arg False"
    and "\<forall>e \<in> set (walk_source env ps src_folder). makedirs_error env (dest_path_of ps e) = None"
  shows "fst (smart_copy_to_pendrive env src_folder dirs_arg exts_arg files_arg False) = None
     \<and> log (snd (smart_copy_to_pendrive env src_folder dirs_arg exts_arg files_arg False)) =
         map (\<lambda>p. case copy2_error env (fst p) (snd p) of
                    None \<Rightarrow> (INFO, ''Copied: '' @ fst p @ '' -> '' @ snd p)
                  | Some cause \<Rightarrow> (ERROR, ''Failed to copy '' @ fst p @ '' to '' @ snd p @ '': '' @ cause))
           (copy_plan ps (walk_source env ps src_folder))
     \<and> fst (smart_copy_to_pendrive (env\<lparr>copy2_error := other\<rparr>) src_folder dirs_arg exts_arg files_arg False)
         = fst (smart_copy_to_pendrive env src_folder dirs_arg exts_arg files_arg False)"
proof -
  have nd: "\<not> dry_run ps" using assms(2) by simp
  let ?st0 = "init_state\<lparr>pbar := (if has_tqdm env \<and> \<not> False
           then Some (count_total_files ps (walk_source env ps src_folder), 0) else None)\<rparr>"
  have run: "smart_copy_to_pendrive env src_folder dirs_arg exts_arg files_arg False =
      copy_walk env ps (walk_source env ps src_folder) ?st0"
    unfolding assms(2) by (rule smart_copy_unfold [OF assms(1)])
  have rec: "copy_record env = (\<lambda>p. case copy2_error env (fst p) (snd p) of
                    None \<Rightarrow> (INFO, ''Copied: '' @ fst p @ '' -> '' @ snd p)
                  | Some cause \<Rightarrow> (ERROR, ''Failed to copy '' @ fst p @ '' to '' @ snd p @ '': '' @ cause))"
    by (rule ext) (simp add: copy_record_def)
  have l0: "log ?st0 = []" by (simp add: init_state_def)
  from copy_walk_exec [OF nd assms(3), of ?st0]
  have "fst (copy_walk env ps (walk_source env ps src_folder) ?st0) = None"
    and "log (snd (copy_walk env ps (walk_source env ps src_folder) ?st0)) =
       map (copy_record env) (copy_plan ps (walk_source env ps src_folder))"
    by (simp_all only: l0 append_Nil)
  then show ?thesis
    unfolding run [symmetric] rec by (simp only: smart_copy_fst_indep simp_thms)
qed

theorem copy_failure_logged_batch_continues_witness:
  "log (snd (smart_copy_to_pendrive small_env ''C:/proj'' None None None False)) =
     [(ERROR, ''Failed to copy C:/proj'' @ [sep] @ ''a.txt to E:'' @ [sep] @ ''proj'' @ [sep] @ ''.''
                @ [sep] @ ''a.txt: denied''),
      (INFO, ''Copied: C:/proj'' @ [sep] @ ''sub'' @ [sep] @ ''b.txt -> E:'' @ [sep] @ ''proj'' @ [sep]
                @ ''sub'' @ [sep] @ ''b.txt'')]
   \<and> fst (smart_copy_to_pendrive small_env ''C:/proj'' None None None False) = None"
proof -
  let ?ps = "make_params drive_E ''C:/proj'' None None None False"
  have p: "find_pendrive small_env = Inr drive_E"
    by code_simp
  have m: "\<forall>e \<in> set (walk_source small_env ?ps ''C:/proj''). makedirs_error small_env (dest_path_of ?ps e) = None"
    by (simp add: small_env_def)
  have plan: "map (\<lambda>p. case copy2_error small_env (fst p) (snd p) of
                    None \<Rightarrow> (INFO, ''Copied: '' @ fst p @ '' -> '' @ snd p)
                  | Some cause \<Rightarrow> (ERROR, ''Failed to copy '' @ fst p @ '' to '' @ snd p @ '': '' @ cause))
           (copy_plan ?ps (walk_source small_env ?ps ''C:/proj'')) =
     [(ERROR, ''Failed to copy C:/proj'' @ [sep] @ ''a.txt to E:'' @ [sep] @ ''proj'' @ [sep] @ ''.''
                @ [sep] @ ''a.txt: denied''),
      (INFO, ''Copied: C:/proj'' @ [sep] @ ''sub'' @ [sep] @ ''b.txt -> E:'' @ [sep] @ ''proj'' @ [sep]
                @ ''sub'' @ [sep] @ ''b.txt'')]"
    by code_simp
  from copy_failure_logged_batch_continues [OF p refl m]
  show ?thesis by (simp only: plan)
qed

text \<open>
  C7, as stated, fails for the simulation script: a file whose size cannot be read
  gets no line in the report of simulate\_main.py and is counted in neither bucket,
  while main.py plans it in a dry run and copies it in execute mode.
\<close>

theorem simulation_skips_planned_file:
  "report (simulate ''C:/proj'' (Some [File ''a.txt'' 10 False])) = []
   \<and> copied_count ''.txt'' (simulate ''C:/proj'' (Some [File ''a.txt'' 10 False])) = 0
   \<and> ignored_count ''.txt'' (simulate ''C:/proj'' (Some [File ''a.txt'' 10 False])) = 0
   \<and> log (snd (smart_copy_to_pendrive unstatable_env ''C:/proj'' None None None True)) =
       [(INFO, ''Would copy: C:/proj'' @ [sep] @ ''a.txt -> E:'' @ [sep] @ ''proj'' @ [sep] @ ''.''
                 @ [sep] @ ''a.txt'')]
   \<and> log (snd (smart_copy_to_pendrive unstatable_env ''C:/proj'' None None None False)) =
       [(INFO, ''Copied: C:/proj'' @ [sep] @ ''a.txt -> E:'' @ [sep] @ ''proj'' @ [sep] @ ''.''
                 @ [sep] @ ''a.txt'')]"
  by code_simp

text \<open>
  C7, amended. A dry run of main.py issues no mutating file-system call (no
  \<^verbatim>\<open>makedirs\<close>, no \<^verbatim>\<open>copy2\<close>), and it classifies the files exactly as the run in
  execute mode does: there is one list of (source, destination) pairs such that the
  dry run logs \<^verbatim>\<open>Would copy\<close> for each pair, and the execute run logs \<^verbatim>\<open>Copied\<close> or
  \<^verbatim>\<open>Failed to copy\<close> for each pair of a prefix of the list, the whole list whenever
  it returns normally. The report of simulate\_main.py ranges over the same walk and
  the same planned files as a dry run of main.py with the default sets, and has a
  line for exactly those planned files whose size can be read.
\<close>

theorem dry_run_no_mutation_same_classification:
  "calls (snd (smart_copy_to_pendrive env src_folder dirs_arg exts_arg files_arg True)) = []
   \<and> (\<exists>plan k.
         log (snd (smart_copy_to_pendrive env src_folder dirs_arg exts_arg files_arg True))
           = map would_copy_record plan
       \<and> log (snd (smart_copy_to_pendrive env src_folder dirs_arg exts_arg files_arg False))
           = map (copy_record env) (take k plan)
       \<and> (fst (smart_copy_to_pendrive env src_folder dirs_arg exts_arg files_arg False) = None
            \<longrightarrow> k = length plan))
   \<and> (find_pendrive env = Inr pendrive_root \<and> scandir env src_folder = Some es
        \<and> ps = make_params pendrive_root src_folder None None None True \<longrightarrow>
        log (snd (smart_copy_to_pendrive env src_folder None None None True)) =
          concat (map (\<lambda>e.
              map (\<lambda>f. (INFO, ''Would copy: '' @ join (we_root e) (node_name f) @ '' -> ''
                     @ join (dest_path_of ps e) (node_name f)))
                (planned_files ps e))
            (walk_source env ps src_folder))
      \<and> report (simulate src_folder (Some es)) =
          concat (map (\<lambda>e.
              map (\<lambda>f. ''Would copy: '' @ join (we_root e) (node_name f) @ '' -> ''
                     @ join (join ''SIMULATED_USB'' (relpath (we_rel e))) (node_name f))
                (filter stat_ok (planned_files ps e)))
            (walk_source env ps src_folder)))"
proof (intro conjI impI)
  show "calls (snd (smart_copy_to_pendrive env src_folder dirs_arg exts_arg files_arg True)) = []"
    by (rule dry_run_same_plan [THEN conjunct1])
  show "\<exists>plan k.
         log (snd (smart_copy_to_pendrive env src_folder dirs_arg exts_arg files_arg True))
           = map would_copy_record plan
       \<and> log (snd (smart_copy_to_pendrive env src_folder dirs_arg exts_arg files_arg False))
           = map (copy_record env) (take k plan)
       \<and> (fst (smart_copy_to_pendrive env src_folder dirs_arg exts_arg files_arg False) = None
            \<longrightarrow> k = length plan)"
    by (rule dry_run_same_plan [THEN conjunct2])
next
  assume h: "find_pendrive env = Inr pendrive_root \<and> scandir env src_folder = Some es
        \<and> ps = make_params pendrive_root src_folder None None None True"
  then have p: "find_pendrive env = Inr pendrive_root" and s: "scandir env src_folder = Some es"
    and ps: "ps = make_params pendrive_root src_folder None None None True"
    by simp_all
  show "log (snd (smart_copy_to_pendrive env src_folder None None None True)) =
          concat (map (\<lambda>e.
              map (\<lambda>f. (INFO, ''Would copy: '' @ join (we_root e) (node_name f) @ '' -> ''
                     @ join (dest_path_of ps e) (node_name f)))
                (planned_files ps e))
            (walk_source env ps src_folder))"
    by (rule smart_copy_dry_log_planned [OF p ps])
  show "report (simulate src_folder (Some es)) =
          concat (map (\<lambda>e.
              map (\<lambda>f. ''Would copy: '' @ join (we_root e) (node_name f) @ '' -> ''
                     @ join (join ''SIMULATED_USB'' (relpath (we_rel e))) (node_name f))
                (filter stat_ok (planned_files ps e)))
            (walk_source env ps src_folder))"
    by (rule simulate_report_planned [OF s ps])
qed

theorem dry_run_no_mutation_same_classification_witness:
  "calls (snd (smart_copy_to_pendrive mixed_env ''C:/proj'' None None None True)) = []
   \<and> log (snd (smart_copy_to_pendrive mixed_env ''C:/proj'' None None None True)) =
       [(INFO, ''Would copy: C:/proj'' @ [sep] @ ''a.txt -> E:'' @ [sep] @ ''proj'' @ [sep] @ ''.''
                 @ [sep] @ ''a.txt''),
        (INFO, ''Would copy: C:/proj'' @ [sep] @ ''b.txt -> E:'' @ [sep] @ ''proj'' @ [sep] @ ''.''
                 @ [sep] @ ''b.txt'')]
   \<and> report (simulate ''C:/proj'' (Some [File ''a.txt'' 10 False, File ''b.txt'' 5 True])) =
       [''Would copy: C:/proj'' @ [sep] @ ''b.txt -> SIMULATED_USB'' @ [sep] @ ''.'' @ [sep] @ ''b.txt'']"
proof -
  let ?ps = "make_params drive_E ''C:/proj'' None None None True"
  let ?es = "[File ''a.txt'' 10 False, File ''b.txt'' 5 True]"
  have p: "find_pendrive mixed_env = Inr drive_E"
    by code_simp
  have s: "scandir mixed_env ''C:/proj'' = Some ?es"
    by (simp add: mixed_env_def)
  note t = dry_run_no_mutation_same_classification [where env = mixed_env and src_folder = "''C:/proj''" and dirs_arg = None
      and exts_arg = None and files_arg = None and pendrive_root = drive_E and es = ?es and ps = ?ps]
  note t1 = t [THEN conjunct1]
  note t3 = t [THEN conjunct2, THEN conjunct2, THEN mp, OF conjI [OF p conjI [OF s refl]]]
  show ?thesis
    unfolding t1 t3 [THEN conjunct1] t3 [THEN conjunct2] by code_simp
qed

text \<open>
  C8, as stated, fails: the record starts with \<^verbatim>\<open>Would copy:\<close>, with a capital; for
  a file of the source root the destination holds a \<^verbatim>\<open>.\<close> segment, the relative path
  of the root; and the report of simulate\_main.py puts the file under
  \<^verbatim>\<open>SIMULATED_USB\<close> without the base name of the source root.
\<close>

theorem would_copy_record_counterexample:
  "log (snd (smart_copy_to_pendrive one_file_env ''C:/proj'' None None None True)) =
     [(INFO, ''Would copy: C:/proj'' @ [sep] @ ''a.txt -> E:'' @ [sep] @ ''proj'' @ [sep] @ ''.''
               @ [sep] @ ''a.txt'')]
   \<and> log (snd (smart_copy_to_pendrive one_file_env ''C:/proj'' None None None True)) \<noteq>
     [(INFO, ''would copy: C:/proj'' @ [sep] @ ''a.txt -> E:'' @ [sep] @ ''proj'' @ [sep] @ ''a.txt'')]
   \<and> report (simulate ''C:/proj'' (Some [File ''a.txt'' 10 True])) =
     [''Would copy: C:/proj'' @ [sep] @ ''a.txt -> SIMULATED_USB'' @ [sep] @ ''.'' @ [sep] @ ''a.txt'']"
  by code_simp

text \<open>
  C8, amended. With a removable drive found, the log of a dry run is, in walk order,
  one record \<^verbatim>\<open>Would copy: <source> -> <destination>\<close> for every file that passes
  the extension and file-name rules in a walked directory, where the source is the
  directory's path joined with the file name, and the destination is the drive root
  joined with the base name of the source folder, then with the directory's path
  relative to the source folder (\<^verbatim>\<open>.\<close> for the source folder itself), then with the
  file name. Every walked directory's path is the source folder joined with the
  names descended. The report of simulate\_main.py has the same lines for the files
  whose size can be read, with the destination \<^verbatim>\<open>SIMULATED_USB\<close> joined with the
  relative path and the file name.
\<close>

theorem would_copy_record_format:
  assumes "find_pendrive env = Inr pendrive_root"
    and "ps = make_params pendrive_root src_folder dirs_arg exts_arg files_arg True"
  shows "log (snd (smart_copy_to_pendrive env src_folder dirs_arg exts_arg files_arg True)) =
      concat (map (\<lambda>e.
          map (\<lambda>fname. (INFO, ''Would copy: '' @ join (we_root e) fname @ '' -> ''
                 @ join (join (join pendrive_root (basename src_folder)) (relpath (we_rel e))) fname))
            (filter (\<lambda>fname. \<not> should_ignore fname {} (ignore_exts ps) (ignore_files ps))
               (map node_name (we_files e))))
        (walk_source env ps src_folder))
    \<and> (\<forall>e \<in> set (walk_source env ps src_folder). we_root e = foldl join src_folder (we_rel e))
    \<and> report (simulate test_folder (Some es)) =
        concat (map (\<lambda>e. concat (map (sim_line (we_root e) (relpath (we_rel e))) (we_files e)))
          (os_walk sim_keep test_folder [] es))"
proof -
  have df: "dest_folder ps = join pendrive_root (basename src_folder)"
    using assms(2) by (simp add: make_params_def)
  have "map would_copy_record (copy_plan ps (walk_source env ps src_folder)) =
      concat (map (\<lambda>e.
          map (\<lambda>fname. (INFO, ''Would copy: '' @ join (we_root e) fname @ '' -> ''
                 @ join (join (join pendrive_root (basename src_folder)) (relpath (we_rel e))) fname))
            (filter (\<lambda>fname. \<not> should_ignore fname {} (ignore_exts ps) (ignore_files ps))
               (map node_name (we_files e))))
        (walk_source env ps src_folder))"
    by (simp add: copy_plan_def planned_def dest_path_of_def would_copy_record_def df
        map_concat comp_def)
  then have a: "log (snd (smart_copy_to_pendrive env src_folder dirs_arg exts_arg files_arg True)) =
      concat (map (\<lambda>e.
          map (\<lambda>fname. (INFO, ''Would copy: '' @ join (we_root e) fname @ '' -> ''
                 @ join (join (join pendrive_root (basename src_folder)) (relpath (we_rel e))) fname))
            (filter (\<lambda>fname. \<not> should_ignore fname {} (ignore_exts ps) (ignore_files ps))
               (map node_name (we_files e))))
        (walk_source env ps src_folder))"
    by (simp only: log_smart_copy_dry [OF assms])
  have c: "report (simulate test_folder (Some es)) =
        concat (map (\<lambda>e. concat (map (sim_line (we_root e) (relpath (we_rel e))) (we_files e)))
          (os_walk sim_keep test_folder [] es))"
    using report_simulate [of test_folder es] by (simp only: sim_lines_def [abs_def])
  show ?thesis
    using a walk_source_roots c by (intro conjI)
qed

theorem would_copy_record_format_witness:
  "log (snd (smart_copy_to_pendrive small_env ''C:/proj'' None None None True)) =
     [(INFO, ''Would copy: C:/proj'' @ [sep] @ ''a.txt -> E:'' @ [sep] @ ''proj'' @ [sep] @ ''.''
               @ [sep] @ ''a.txt''),
      (INFO, ''Would copy: C:/proj'' @ [sep] @ ''sub'' @ [sep] @ ''b.txt -> E:'' @ [sep] @ ''proj''
               @ [sep] @ ''sub'' @ [sep] @ ''b.txt'')]
   \<and> report (simulate ''C:/proj'' (Some small_tree)) =
     [''Would copy: C:/proj'' @ [sep] @ ''a.txt -> SIMULATED_USB'' @ [sep] @ ''.'' @ [sep] @ ''a.txt'',
      ''Would copy: C:/proj'' @ [sep] @ ''sub'' @ [sep] @ ''b.txt -> SIMULATED_USB'' @ [sep] @ ''sub''
        @ [sep] @ ''b.txt'']"
proof -
  have p: "find_pendrive small_env = Inr drive_E"
    by code_simp
  note t = would_copy_record_format [OF p refl, where test_folder = "''C:/proj''" and es = small_tree]
  note t1 = t [THEN conjunct1]
  note t3 = t [THEN conjunct2, THEN conjunct2]
  show ?thesis
    unfolding t1 t3 by code_simp
qed

text \<open>
  C9. Even with \<^verbatim>\<open>dry_run\<close> set to true, the removable destination is resolved
  before anything else: when none of the letters A to Z is a removable drive, the
  call raises \<^verbatim>\<open>RuntimeError("No pendrive detected.")\<close>, and it has logged nothing
  and issued no file-system call.
\<close>

theorem no_pendrive_dry_run_raises:
  "\<forall>letter \<in> set ascii_uppercase. \<not> is_pendrive env letter \<Longrightarrow>
   smart_copy_to_pendrive env src_folder dirs_arg exts_arg files_arg True =
     (Some (RuntimeError ''No pendrive detected.''), \<lparr>log = [], calls = [], pbar = None\<rparr>)"
  by (simp add: smart_copy_to_pendrive_def find_pendrive_def find_pendrive_from_none init_state_def)

theorem no_pendrive_dry_run_raises_witness:
  "smart_copy_to_pendrive no_drive_env ''C:/proj'' None None None True =
     (Some (RuntimeError ''No pendrive detected.''), \<lparr>log = [], calls = [], pbar = None\<rparr>)"
proof -
  have "\<forall>letter \<in> set ascii_uppercase. \<not> is_pendrive no_drive_env letter"
    by (simp add: is_pendrive_def no_drive_env_def)
  then show ?thesis by (rule no_pendrive_dry_run_raises)
qed



end
